theory Spec2Isabelle
  imports Main "HOL-Library.Word" "HOL-Library.Sublist"
begin

section \<open>Client API: data model (openvpn\_client\_api.h)\<close>

text \<open>
  The embedding follows \<^verbatim>\<open>openvpn_client_api.h\<close> and \<^verbatim>\<open>openvpn_client_api.c\<close>.
  Conventions:
  \<^item> \<^verbatim>\<open>uint32_t\<close> values whose wrap-around can be observed (session identifiers, the
    identifier counter, configuration numbers) are \<open>32 word\<close>;
  \<^item> the ring indices \<^verbatim>\<open>event_queue_head\<close> and \<^verbatim>\<open>event_queue_tail\<close> are \<open>nat\<close>: the
    only arithmetic on them is \<^verbatim>\<open>(x + 1) % 256\<close>, and since 256 divides \<open>2 ^ 32\<close> the
    \<^verbatim>\<open>uint32_t\<close> result equals \<open>(x + 1) mod 256\<close> on naturals for every \<open>x < 2 ^ 32\<close>;
  \<^item> a nullable \<^verbatim>\<open>char *\<close> is a \<open>string option\<close> (\<open>None\<close> is \<^verbatim>\<open>NULL\<close>), \<^verbatim>\<open>strdup\<close> is the
    identity on the characters (allocation is assumed to succeed);
  \<^item> C arrays are functions from the index, read only inside their bounds;
  \<^item> \<^verbatim>\<open>time_t\<close> is \<open>int\<close>; every operation takes the value \<open>now\<close> that \<^verbatim>\<open>time(NULL)\<close>
    returns while it runs;
  \<^item> the mutexes are not modelled: every operation and every pass of the worker loop
    is one atomic step of a sequential schedule;
  \<^item> the user callback is foreign code; the model records the pointer and assumes that
    invoking it does not call back into the API.
\<close>

definition MAX_CLIENT_SESSIONS :: nat where
  "MAX_CLIENT_SESSIONS = 64"

definition MAX_EVENT_QUEUE_SIZE :: nat where
  "MAX_EVENT_QUEUE_SIZE = 256"

datatype ovpn_client_state_t =
    CLIENT_STATE_INITIAL
  | CLIENT_STATE_CONNECTING
  | CLIENT_STATE_WAIT
  | CLIENT_STATE_AUTH
  | CLIENT_STATE_GET_CONFIG
  | CLIENT_STATE_ASSIGN_IP
  | CLIENT_STATE_ADD_ROUTES
  | CLIENT_STATE_CONNECTED
  | CLIENT_STATE_RECONNECTING
  | CLIENT_STATE_EXITING
  | CLIENT_STATE_DISCONNECTED
  | CLIENT_STATE_ERROR

datatype ovpn_client_event_type_t =
    CLIENT_EVENT_STATE_CHANGE
  | CLIENT_EVENT_LOG_MESSAGE
  | CLIENT_EVENT_STATS_UPDATE
  | CLIENT_EVENT_ERROR
  | CLIENT_EVENT_AUTH_REQUIRED
  | CLIENT_EVENT_RECONNECT
  | CLIENT_EVENT_LATENCY_UPDATE
  | CLIENT_EVENT_QUALITY_UPDATE
  | CLIENT_EVENT_BYTES_COUNT
  | CLIENT_EVENT_ROUTE_UPDATE

definition OVPN_ERROR_SUCCESS :: int where "OVPN_ERROR_SUCCESS = 0"
definition OVPN_ERROR_INVALID_PARAM :: int where "OVPN_ERROR_INVALID_PARAM = - 1"
definition OVPN_ERROR_SESSION_NOT_FOUND :: int where "OVPN_ERROR_SESSION_NOT_FOUND = - 4"
definition OVPN_ERROR_ALREADY_CONNECTED :: int where "OVPN_ERROR_ALREADY_CONNECTED = - 5"
definition OVPN_ERROR_NOT_CONNECTED :: int where "OVPN_ERROR_NOT_CONNECTED = - 6"
definition OVPN_ERROR_CONFIG_INVALID :: int where "OVPN_ERROR_CONFIG_INVALID = - 7"
definition OVPN_ERROR_THREAD_ERROR :: int where "OVPN_ERROR_THREAD_ERROR = - 11"
definition OVPN_ERROR_JSON_PARSE :: int where "OVPN_ERROR_JSON_PARSE = - 12"

text \<open>\<^verbatim>\<open>ovpn_quality_metrics_t\<close>; the \<^verbatim>\<open>float signal_strength\<close> is left out.\<close>

record ovpn_quality_metrics_t =
  ping_ms :: "32 word"
  avg_ping_ms :: "32 word"
  packet_loss_pct :: "32 word"
  jitter_ms :: "32 word"
  bandwidth_up_kbps :: "32 word"
  bandwidth_down_kbps :: "32 word"
  last_updated :: int

record ovpn_client_stats_t =
  bytes_sent :: "64 word"
  bytes_received :: "64 word"
  packets_sent :: "64 word"
  packets_received :: "64 word"
  connection_count :: "32 word"
  reconnection_count :: "32 word"
  connected_since :: int
  last_activity :: int
  compression_ratio :: "32 word"
  auth_failures :: "32 word"

record ovpn_client_config_t =
  profile_name :: "string option"
  ovpn_config :: "string option"
  username :: "string option"
  password :: "string option"
  cert_path :: "string option"
  key_path :: "string option"
  ca_path :: "string option"
  auto_reconnect :: bool
  reconnect_interval :: "32 word"
  ping_interval :: "32 word"
  enable_compression :: bool
  mtu_size :: "32 word"
  proxy_host :: "string option"
  proxy_port :: "32 word"
  proxy_username :: "string option"
  proxy_password :: "string option"
  log_verbose :: bool
  stats_interval :: "32 word"

text \<open>
  \<^verbatim>\<open>ovpn_client_event_t\<close>. The fields carry the prefix \<open>ev_\<close> because the session has
  fields of the same names. \<open>ev_data\<close> holds the copied payload bytes (\<open>None\<close> is
  \<^verbatim>\<open>NULL\<close>); \<^verbatim>\<open>data_size\<close> is its length.
\<close>

record ovpn_client_event_t =
  ev_session_id :: "32 word"
  ev_type :: ovpn_client_event_type_t
  ev_timestamp :: int
  ev_state :: ovpn_client_state_t
  ev_message :: "string option"
  ev_data :: "8 word list option"

text \<open>
  \<^verbatim>\<open>ovpn_client_session_t\<close>. The two opaque engine pointers and the two mutexes are left
  out. \<open>worker_thread\<close> is the \<^verbatim>\<open>pthread_t\<close> handle (0 when there is none),
  \<open>event_callback\<close> and \<open>user_data\<close> are pointer values (0 is \<^verbatim>\<open>NULL\<close>).
\<close>

record ovpn_client_session_t =
  session_id :: "32 word"
  config :: ovpn_client_config_t
  state :: ovpn_client_state_t
  stats :: ovpn_client_stats_t
  quality :: ovpn_quality_metrics_t
  worker_thread :: nat
  thread_running :: bool
  event_queue :: "nat \<Rightarrow> ovpn_client_event_t"
  event_queue_head :: nat
  event_queue_tail :: nat
  is_active :: bool
  is_connected :: bool
  created_at :: int
  last_ping :: int
  event_callback :: nat
  user_data :: nat

text \<open>The all-zero values that \<^verbatim>\<open>memset(p, 0, sizeof *p)\<close> leaves behind.\<close>

definition zero_quality :: ovpn_quality_metrics_t where
  "zero_quality = \<lparr> ping_ms = 0, avg_ping_ms = 0, packet_loss_pct = 0, jitter_ms = 0,
     bandwidth_up_kbps = 0, bandwidth_down_kbps = 0, last_updated = 0 \<rparr>"

definition zero_stats :: ovpn_client_stats_t where
  "zero_stats = \<lparr> bytes_sent = 0, bytes_received = 0, packets_sent = 0, packets_received = 0,
     connection_count = 0, reconnection_count = 0, connected_since = 0, last_activity = 0,
     compression_ratio = 0, auth_failures = 0 \<rparr>"

definition zero_config :: ovpn_client_config_t where
  "zero_config = \<lparr> profile_name = None, ovpn_config = None, username = None, password = None,
     cert_path = None, key_path = None, ca_path = None, auto_reconnect = False,
     reconnect_interval = 0, ping_interval = 0, enable_compression = False, mtu_size = 0,
     proxy_host = None, proxy_port = 0, proxy_username = None, proxy_password = None,
     log_verbose = False, stats_interval = 0 \<rparr>"

definition zero_event :: ovpn_client_event_t where
  "zero_event = \<lparr> ev_session_id = 0, ev_type = CLIENT_EVENT_STATE_CHANGE, ev_timestamp = 0,
     ev_state = CLIENT_STATE_INITIAL, ev_message = None, ev_data = None \<rparr>"

definition zero_session :: ovpn_client_session_t where
  "zero_session = \<lparr> session_id = 0, config = zero_config, state = CLIENT_STATE_INITIAL,
     stats = zero_stats, quality = zero_quality, worker_thread = 0, thread_running = False,
     event_queue = (\<lambda>_. zero_event), event_queue_head = 0, event_queue_tail = 0,
     is_active = False, is_connected = False, created_at = 0, last_ping = 0,
     event_callback = 0, user_data = 0 \<rparr>"

text \<open>
  The globals of \<^verbatim>\<open>openvpn_client_api.c\<close>: the session table and the identifier counter.
  \<open>pthread_joins\<close> is a ghost counter of the \<^verbatim>\<open>pthread_join\<close> calls performed so far; it
  makes that effect of \<^verbatim>\<open>ovpn_client_disconnect\<close> visible in the state.
\<close>

record client_api =
  g_sessions :: "nat \<Rightarrow> ovpn_client_session_t"
  g_next_session_id :: "32 word"
  pthread_joins :: nat

text \<open>The state at program start: static storage is zero, the counter starts at 1.\<close>

definition client_api_start :: client_api where
  "client_api_start = \<lparr> g_sessions = (\<lambda>_. zero_session), g_next_session_id = 1,
     pthread_joins = 0 \<rparr>"

section \<open>Event channel\<close>

text \<open>
  \<^verbatim>\<open>client_event_handler(session, type, message, data, data_size)\<close>, lines 745--787.
  \<open>data\<close> is the buffer of \<^verbatim>\<open>data_size\<close> bytes, \<open>None\<close> for \<^verbatim>\<open>NULL\<close>; the payload is
  copied only when the buffer is present and not empty.
\<close>

definition client_event_handler ::
  "int \<Rightarrow> ovpn_client_session_t \<Rightarrow> ovpn_client_event_type_t \<Rightarrow> string option \<Rightarrow>
   8 word list option \<Rightarrow> ovpn_client_session_t" where
  "client_event_handler now session type message data =
     (let next_tail = (event_queue_tail session + 1) mod MAX_EVENT_QUEUE_SIZE;
          session1 =
            (if next_tail = event_queue_head session
             then session\<lparr> event_queue_head :=
                    (event_queue_head session + 1) mod MAX_EVENT_QUEUE_SIZE \<rparr>
             else session);
          event = \<lparr> ev_session_id = session_id session1, ev_type = type, ev_timestamp = now,
                    ev_state = state session1, ev_message = message,
                    ev_data = (case data of
                                 None \<Rightarrow> None
                               | Some bytes \<Rightarrow> if 0 < length bytes then Some bytes else None) \<rparr>
      in session1\<lparr> event_queue := (event_queue session1)(event_queue_tail session1 := event),
                   event_queue_tail := next_tail \<rparr>)"


text \<open>
  \<^verbatim>\<open>ovpn_client_get_next_event\<close> reports an empty channel by \<^verbatim>\<open>head == tail\<close>. The
  number of events waiting is \<open>(tail - head) mod capacity\<close>, and they sit in the slots
  \<open>head, head + 1, ...\<close> (modulo the capacity), oldest first.
\<close>

definition queue_wf :: "ovpn_client_session_t \<Rightarrow> bool" where
  "queue_wf s \<longleftrightarrow>
     event_queue_head s < MAX_EVENT_QUEUE_SIZE \<and> event_queue_tail s < MAX_EVENT_QUEUE_SIZE"

definition queue_count :: "ovpn_client_session_t \<Rightarrow> nat" where
  "queue_count s =
     (event_queue_tail s + MAX_EVENT_QUEUE_SIZE - event_queue_head s) mod MAX_EVENT_QUEUE_SIZE"

definition pending_events :: "ovpn_client_session_t \<Rightarrow> ovpn_client_event_t list" where
  "pending_events s =
     map (\<lambda>k. event_queue s ((event_queue_head s + k) mod MAX_EVENT_QUEUE_SIZE))
       [0..<queue_count s]"

text \<open>The event that \<^verbatim>\<open>client_event_handler\<close> writes into the slot at the tail.\<close>

definition make_event ::
  "int \<Rightarrow> ovpn_client_session_t \<Rightarrow> ovpn_client_event_type_t \<Rightarrow> string option \<Rightarrow>
   8 word list option \<Rightarrow> ovpn_client_event_t" where
  "make_event now s type message data =
     \<lparr> ev_session_id = session_id s, ev_type = type, ev_timestamp = now,
       ev_state = state s, ev_message = message,
       ev_data = (case data of
                    None \<Rightarrow> None
                  | Some bytes \<Rightarrow> if 0 < length bytes then Some bytes else None) \<rparr>"

text \<open>A run of calls of \<^verbatim>\<open>client_event_handler\<close> on one session, one per request.\<close>

type_synonym event_request =
  "int \<times> ovpn_client_event_type_t \<times> string option \<times> 8 word list option"

definition emit :: "ovpn_client_session_t \<Rightarrow> event_request \<Rightarrow> ovpn_client_session_t" where
  "emit s r = (case r of (now, type, message, data) \<Rightarrow>
                 client_event_handler now s type message data)"

definition requested_event :: "ovpn_client_session_t \<Rightarrow> event_request \<Rightarrow> ovpn_client_event_t" where
  "requested_event s r = (case r of (now, type, message, data) \<Rightarrow>
                            make_event now s type message data)"

primrec emit_all :: "ovpn_client_session_t \<Rightarrow> event_request list \<Rightarrow> ovpn_client_session_t" where
  "emit_all s [] = s"
| "emit_all s (r # rs) = emit_all (emit s r) rs"

section \<open>Client session registry\<close>

text \<open>
  The lookup loop that opens most operations:
  \<^verbatim>\<open>for (i = 0; i < MAX_CLIENT_SESSIONS; i++)
    if (g_sessions[i].is_active && g_sessions[i].session_id == session_id) ...\<close>
  \<open>find_session_from tbl sid i\<close> is the loop entered with index \<open>i\<close>.
\<close>

function find_session_from ::
  "(nat \<Rightarrow> ovpn_client_session_t) \<Rightarrow> 32 word \<Rightarrow> nat \<Rightarrow> nat option" where
  "find_session_from tbl sid i =
     (if i < MAX_CLIENT_SESSIONS
      then (if is_active (tbl i) \<and> session_id (tbl i) = sid then Some i
            else find_session_from tbl sid (i + 1))
      else None)"
  by pat_completeness auto
termination
  by (relation "measure (\<lambda>(tbl, sid, i). MAX_CLIENT_SESSIONS - i)") auto

definition find_session :: "(nat \<Rightarrow> ovpn_client_session_t) \<Rightarrow> 32 word \<Rightarrow> nat option" where
  "find_session tbl sid = find_session_from tbl sid 0"

text \<open>The free-slot scan of \<^verbatim>\<open>ovpn_client_create_session\<close> (lines 231--237).\<close>

function find_free_slot_from :: "(nat \<Rightarrow> ovpn_client_session_t) \<Rightarrow> nat \<Rightarrow> nat option" where
  "find_free_slot_from tbl i =
     (if i < MAX_CLIENT_SESSIONS
      then (if \<not> is_active (tbl i) then Some i else find_free_slot_from tbl (i + 1))
      else None)"
  by pat_completeness auto
termination
  by (relation "measure (\<lambda>(tbl, i). MAX_CLIENT_SESSIONS - i)") auto

definition find_free_slot :: "(nat \<Rightarrow> ovpn_client_session_t) \<Rightarrow> nat option" where
  "find_free_slot tbl = find_free_slot_from tbl 0"

text \<open>Number of active slots, as \<^verbatim>\<open>ovpn_client_list_sessions\<close> counts them.\<close>

definition active_slots :: "(nat \<Rightarrow> ovpn_client_session_t) \<Rightarrow> nat list" where
  "active_slots tbl = filter (\<lambda>i. is_active (tbl i)) [0..<MAX_CLIENT_SESSIONS]"

definition free_slots :: "(nat \<Rightarrow> ovpn_client_session_t) \<Rightarrow> nat list" where
  "free_slots tbl = filter (\<lambda>i. \<not> is_active (tbl i)) [0..<MAX_CLIENT_SESSIONS]"

text \<open>
  \<^verbatim>\<open>ovpn_client_create_session(config, event_callback, user_data)\<close>, lines 221--304.
  \<open>config\<close> is \<open>None\<close> for a \<^verbatim>\<open>NULL\<close> pointer. The result is the returned identifier and
  the new global state.
\<close>

definition ovpn_client_create_session ::
  "int \<Rightarrow> client_api \<Rightarrow> ovpn_client_config_t option \<Rightarrow> nat \<Rightarrow> nat \<Rightarrow> 32 word \<times> client_api" where
  "ovpn_client_create_session now g config_ptr callback udata =
     (case config_ptr of
        None \<Rightarrow> (0, g)
      | Some cfg \<Rightarrow>
          if ovpn_config cfg = None then (0, g)
          else (case find_free_slot (g_sessions g) of
                  None \<Rightarrow> (0, g)
                | Some slot \<Rightarrow>
                    let session = zero_session
                          \<lparr> session_id := g_next_session_id g,
                            config := cfg,
                            state := CLIENT_STATE_INITIAL,
                            is_active := True,
                            created_at := now,
                            event_callback := callback,
                            user_data := udata,
                            event_queue_head := 0,
                            event_queue_tail := 0 \<rparr>;
                        session' = client_event_handler now session CLIENT_EVENT_STATE_CHANGE
                                     (Some ''Session created'') None
                    in (session_id session,
                        g\<lparr> g_sessions := (g_sessions g)(slot := session'),
                           g_next_session_id := g_next_session_id g + 1 \<rparr>)))"

text \<open>\<^verbatim>\<open>strstr(haystack, needle) != NULL\<close>.\<close>

fun strstr :: "string \<Rightarrow> string \<Rightarrow> bool" where
  "strstr [] needle = (needle = [])"
| "strstr (c # cs) needle = (prefix needle (c # cs) \<or> strstr cs needle)"

text \<open>\<^verbatim>\<open>parse_ovpn_config(session)\<close>, lines 875--894.\<close>

definition parse_ovpn_config :: "ovpn_client_session_t \<Rightarrow> int" where
  "parse_ovpn_config session =
     (case ovpn_config (config session) of
        None \<Rightarrow> OVPN_ERROR_CONFIG_INVALID
      | Some text \<Rightarrow>
          if length text = 0 then OVPN_ERROR_CONFIG_INVALID
          else if \<not> strstr text ''client'' then OVPN_ERROR_CONFIG_INVALID
          else OVPN_ERROR_SUCCESS)"

text \<open>
  \<^verbatim>\<open>ovpn_client_connect(session_id)\<close>, lines 306--352, as the call runs when no step of
  the worker falls between its statements (the worker is started at line 336, before
  the state write and the event; the section on connect and the worker, step by step,
  has the statements one by one). \<open>spawn\<close> is the outcome of \<^verbatim>\<open>pthread_create\<close>:
  \<open>None\<close> when it fails, \<open>Some t\<close> when the worker was started with handle \<open>t\<close>.
\<close>

definition ovpn_client_connect ::
  "int \<Rightarrow> nat option \<Rightarrow> client_api \<Rightarrow> 32 word \<Rightarrow> int \<times> client_api" where
  "ovpn_client_connect now spawn g sid =
     (case find_session (g_sessions g) sid of
        None \<Rightarrow> (OVPN_ERROR_SESSION_NOT_FOUND, g)
      | Some i \<Rightarrow>
          let session = g_sessions g i in
          if is_connected session \<or> thread_running session
          then (OVPN_ERROR_ALREADY_CONNECTED, g)
          else let ret = parse_ovpn_config session in
          if ret \<noteq> OVPN_ERROR_SUCCESS then (ret, g)
          else (case spawn of
                  None \<Rightarrow>
                    (OVPN_ERROR_THREAD_ERROR,
                     g\<lparr> g_sessions := (g_sessions g)
                          (i := (session\<lparr> thread_running := True \<rparr>)\<lparr> thread_running := False \<rparr>) \<rparr>)
                | Some t \<Rightarrow>
                    let s1 = session\<lparr> thread_running := True, worker_thread := t \<rparr>;
                        s2 = s1\<lparr> state := CLIENT_STATE_CONNECTING \<rparr>;
                        s3 = client_event_handler now s2 CLIENT_EVENT_STATE_CHANGE
                               (Some ''Connection initiated'') None
                    in (OVPN_ERROR_SUCCESS, g\<lparr> g_sessions := (g_sessions g)(i := s3) \<rparr>)))"

section \<open>Client worker\<close>

text \<open>
  One pass of the \<^verbatim>\<open>while (session->thread_running)\<close> loop of \<^verbatim>\<open>client_worker_thread\<close>
  (lines 657--734), entered with the flag set. In state \<^verbatim>\<open>CLIENT_STATE_CONNECTED\<close> the
  loop refreshes statistics and quality figures from \<^verbatim>\<open>rand()\<close> and the clock and may
  run a latency probe; that housekeeping is the parameter \<open>tick\<close>, an arbitrary
  function of the time and the session.
\<close>

definition client_worker_iteration ::
  "(int \<Rightarrow> ovpn_client_session_t \<Rightarrow> ovpn_client_session_t) \<Rightarrow> int \<Rightarrow>
   ovpn_client_session_t \<Rightarrow> ovpn_client_session_t" where
  "client_worker_iteration tick now session =
     (let current_state = state session;
          s1 = (case current_state of
                  CLIENT_STATE_CONNECTING \<Rightarrow>
                    client_event_handler now (session\<lparr> state := CLIENT_STATE_AUTH \<rparr>)
                      CLIENT_EVENT_STATE_CHANGE (Some ''Authenticating'') None
                | CLIENT_STATE_AUTH \<Rightarrow>
                    client_event_handler now (session\<lparr> state := CLIENT_STATE_GET_CONFIG \<rparr>)
                      CLIENT_EVENT_STATE_CHANGE (Some ''Getting configuration'') None
                | CLIENT_STATE_GET_CONFIG \<Rightarrow>
                    client_event_handler now (session\<lparr> state := CLIENT_STATE_ASSIGN_IP \<rparr>)
                      CLIENT_EVENT_STATE_CHANGE (Some ''Assigning IP'') None
                | CLIENT_STATE_ASSIGN_IP \<Rightarrow>
                    client_event_handler now (session\<lparr> state := CLIENT_STATE_ADD_ROUTES \<rparr>)
                      CLIENT_EVENT_STATE_CHANGE (Some ''Adding routes'') None
                | CLIENT_STATE_ADD_ROUTES \<Rightarrow>
                    client_event_handler now
                      (session\<lparr> state := CLIENT_STATE_CONNECTED,
                                is_connected := True,
                                stats := (stats session)\<lparr> connected_since := now \<rparr> \<rparr>)
                      CLIENT_EVENT_STATE_CHANGE (Some ''Connected'') None
                | CLIENT_STATE_CONNECTED \<Rightarrow> tick now session
                | _ \<Rightarrow> session)
      in if \<not> is_connected s1 \<and> auto_reconnect (config s1) \<and>
            current_state = CLIENT_STATE_DISCONNECTED
         then (if thread_running s1
               then client_event_handler now (s1\<lparr> state := CLIENT_STATE_CONNECTING \<rparr>)
                      CLIENT_EVENT_RECONNECT (Some ''Auto-reconnecting'') None
               else s1)
         else s1)"

text \<open>
  The first \<open>n\<close> passes of the loop; \<open>clock k\<close> is the time during pass \<open>k\<close>. The loop
  test fails once \<^verbatim>\<open>thread_running\<close> is clear.
\<close>

fun client_worker_passes ::
  "nat \<Rightarrow> (int \<Rightarrow> ovpn_client_session_t \<Rightarrow> ovpn_client_session_t) \<Rightarrow> (nat \<Rightarrow> int) \<Rightarrow>
   ovpn_client_session_t \<Rightarrow> ovpn_client_session_t" where
  "client_worker_passes 0 tick clock session = session"
| "client_worker_passes (Suc n) tick clock session =
     (if thread_running session
      then client_worker_passes n tick (\<lambda>k. clock (Suc k))
             (client_worker_iteration tick (clock 0) session)
      else session)"

text \<open>The code after the loop (lines 736--742).\<close>

definition client_worker_cleanup :: "ovpn_client_session_t \<Rightarrow> ovpn_client_session_t" where
  "client_worker_cleanup session =
     (session\<lparr> is_connected := False \<rparr>)\<lparr> state := CLIENT_STATE_DISCONNECTED \<rparr>"

text \<open>
  \<^verbatim>\<open>client_worker_thread\<close> with fuel: \<open>None\<close> when the loop is still running after
  \<open>fuel\<close> passes, otherwise the session as the thread leaves it.
\<close>

definition client_worker_thread ::
  "nat \<Rightarrow> (int \<Rightarrow> ovpn_client_session_t \<Rightarrow> ovpn_client_session_t) \<Rightarrow> (nat \<Rightarrow> int) \<Rightarrow>
   ovpn_client_session_t \<Rightarrow> ovpn_client_session_t option" where
  "client_worker_thread fuel tick clock session =
     (let s = client_worker_passes fuel tick clock session
      in if thread_running s then None else Some (client_worker_cleanup s))"

text \<open>
  \<^verbatim>\<open>ovpn_client_disconnect(session_id)\<close>, lines 354--395. \<^verbatim>\<open>pthread_join\<close> returns when
  the worker has left its loop: the flag was cleared just before, so what the worker
  still runs is \<open>client_worker_cleanup\<close>.
\<close>

definition ovpn_client_disconnect :: "int \<Rightarrow> client_api \<Rightarrow> 32 word \<Rightarrow> int \<times> client_api" where
  "ovpn_client_disconnect now g sid =
     (case find_session (g_sessions g) sid of
        None \<Rightarrow> (OVPN_ERROR_SESSION_NOT_FOUND, g)
      | Some i \<Rightarrow>
          let session = g_sessions g i in
          if \<not> thread_running session \<and> \<not> is_connected session
          then (OVPN_ERROR_NOT_CONNECTED, g)
          else
            let s1 = session\<lparr> thread_running := False \<rparr>;
                joined = (worker_thread s1 \<noteq> 0);
                s2 = (if joined then (client_worker_cleanup s1)\<lparr> worker_thread := 0 \<rparr> else s1);
                s3 = s2\<lparr> state := CLIENT_STATE_DISCONNECTED, is_connected := False \<rparr>;
                s4 = client_event_handler now s3 CLIENT_EVENT_STATE_CHANGE
                       (Some ''Disconnected'') None
            in (OVPN_ERROR_SUCCESS,
                g\<lparr> g_sessions := (g_sessions g)(i := s4),
                   pthread_joins := (if joined then pthread_joins g + 1 else pthread_joins g) \<rparr>))"

text \<open>\<^verbatim>\<open>ovpn_client_destroy_session(session_id)\<close>, lines 397--430.\<close>

definition ovpn_client_destroy_session :: "int \<Rightarrow> client_api \<Rightarrow> 32 word \<Rightarrow> int \<times> client_api" where
  "ovpn_client_destroy_session now g sid =
     (let g1 = snd (ovpn_client_disconnect now g sid) in
      case find_session (g_sessions g1) sid of
        None \<Rightarrow> (OVPN_ERROR_SESSION_NOT_FOUND, g1)
      | Some i \<Rightarrow> (OVPN_ERROR_SUCCESS, g1\<lparr> g_sessions := (g_sessions g1)(i := zero_session) \<rparr>))"

text \<open>\<^verbatim>\<open>ovpn_client_get_state(session_id)\<close>, lines 432--448.\<close>

definition ovpn_client_get_state :: "client_api \<Rightarrow> 32 word \<Rightarrow> ovpn_client_state_t" where
  "ovpn_client_get_state g sid =
     (case find_session (g_sessions g) sid of
        None \<Rightarrow> CLIENT_STATE_ERROR
      | Some i \<Rightarrow> state (g_sessions g i))"

text \<open>
  \<^verbatim>\<open>ovpn_client_get_next_event(session_id, event)\<close>, lines 554--590, called with a valid
  output pointer. The result is \<open>Some e\<close> when the call returns \<^verbatim>\<open>true\<close> and stores \<open>e\<close>,
  and \<open>None\<close> when it returns \<^verbatim>\<open>false\<close>.
\<close>

definition ovpn_client_get_next_event ::
  "client_api \<Rightarrow> 32 word \<Rightarrow> ovpn_client_event_t option \<times> client_api" where
  "ovpn_client_get_next_event g sid =
     (case find_session (g_sessions g) sid of
        None \<Rightarrow> (None, g)
      | Some i \<Rightarrow>
          let session = g_sessions g i in
          if event_queue_head session = event_queue_tail session then (None, g)
          else (Some (event_queue session (event_queue_head session)),
                g\<lparr> g_sessions := (g_sessions g)
                     (i := session\<lparr> event_queue_head :=
                             (event_queue_head session + 1) mod MAX_EVENT_QUEUE_SIZE \<rparr>) \<rparr>))"

text \<open>
  The drain loop used by callers (\<^verbatim>\<open>example_client_usage.c\<close>, line 163):
  \<^verbatim>\<open>while (ovpn_client_get_next_event(id, &event)) ...\<close>, cut off after \<open>n\<close> events.
\<close>

fun get_events :: "nat \<Rightarrow> client_api \<Rightarrow> 32 word \<Rightarrow> ovpn_client_event_t list \<times> client_api" where
  "get_events 0 g sid = ([], g)"
| "get_events (Suc n) g sid =
     (case ovpn_client_get_next_event g sid of
        (None, g') \<Rightarrow> ([], g')
      | (Some e, g') \<Rightarrow> (case get_events n g' sid of (es, g'') \<Rightarrow> (e # es, g'')))"

text \<open>\<^verbatim>\<open>ovpn_client_pause\<close> and \<^verbatim>\<open>ovpn_client_resume\<close>, lines 932--938.\<close>

definition ovpn_client_pause :: "int \<Rightarrow> client_api \<Rightarrow> 32 word \<Rightarrow> int \<times> client_api" where
  "ovpn_client_pause now g sid = ovpn_client_disconnect now g sid"

definition ovpn_client_resume ::
  "int \<Rightarrow> nat option \<Rightarrow> client_api \<Rightarrow> 32 word \<Rightarrow> int \<times> client_api" where
  "ovpn_client_resume now spawn g sid = ovpn_client_connect now spawn g sid"


text \<open>Index arithmetic of the ring: the number of slots from \<open>h\<close> up to \<open>t\<close>, and the
  contents of \<open>n\<close> consecutive slots starting at \<open>h\<close>.\<close>

definition ring_count :: "nat \<Rightarrow> nat \<Rightarrow> nat" where
  "ring_count h t = (t + 256 - h) mod 256"

definition ring_list :: "(nat \<Rightarrow> 'a) \<Rightarrow> nat \<Rightarrow> nat \<Rightarrow> 'a list" where
  "ring_list q h n = map (\<lambda>k. q ((h + k) mod 256)) [0..<n]"

text \<open>The head moved on by one slot, as \<^verbatim>\<open>ovpn_client_get_next_event\<close> leaves it.\<close>

definition pop_event :: "ovpn_client_session_t \<Rightarrow> ovpn_client_session_t" where
  "pop_event s = s\<lparr> event_queue_head := (event_queue_head s + 1) mod MAX_EVENT_QUEUE_SIZE \<rparr>"

text \<open>Concrete inputs for the closed theorems below.\<close>

definition one_session_registry :: client_api where
  "one_session_registry =
     client_api_start\<lparr> g_sessions := (\<lambda>_. zero_session)
       (0 := zero_session\<lparr> session_id := 1, is_active := True \<rparr>), g_next_session_id := 2 \<rparr>"

definition log_request :: event_request where
  "log_request = (0, CLIENT_EVENT_LOG_MESSAGE, Some ''line'', None)"

text \<open>The session that \<^verbatim>\<open>ovpn_client_create_session\<close> stores in the slot it found.\<close>

definition new_session ::
  "int \<Rightarrow> 32 word \<Rightarrow> ovpn_client_config_t \<Rightarrow> nat \<Rightarrow> nat \<Rightarrow> ovpn_client_session_t" where
  "new_session now sid cfg cb ud =
     client_event_handler now
       (zero_session\<lparr> session_id := sid, config := cfg, state := CLIENT_STATE_INITIAL,
          is_active := True, created_at := now, event_callback := cb, user_data := ud,
          event_queue_head := 0, event_queue_tail := 0 \<rparr>)
       CLIENT_EVENT_STATE_CHANGE (Some ''Session created'') None"

text \<open>A configuration with the mandatory profile text, in client mode.\<close>

definition valid_config :: ovpn_client_config_t where
  "valid_config = zero_config\<lparr> ovpn_config := Some ''client'' \<rparr>"

text \<open>One round of \<^verbatim>\<open>ovpn_client_create_session\<close> followed by
  \<^verbatim>\<open>ovpn_client_destroy_session\<close> of the identifier it returned.\<close>

definition create_then_destroy :: "ovpn_client_config_t \<Rightarrow> client_api \<Rightarrow> client_api" where
  "create_then_destroy cfg g =
     (case ovpn_client_create_session 0 g (Some cfg) 0 0 of
        (sid, g') \<Rightarrow> snd (ovpn_client_destroy_session 0 g' sid))"

text \<open>The registry after \<open>2 ^ 32 - 1\<close> such rounds from program start.\<close>

definition wrapped_registry :: client_api where
  "wrapped_registry = (create_then_destroy valid_config ^^ 4294967295) client_api_start"

text \<open>A registry with every slot occupied, and one with a single connected session.\<close>

definition full_registry :: client_api where
  "full_registry =
     \<lparr> g_sessions = (\<lambda>i. zero_session\<lparr> session_id := of_nat i + 1, is_active := True \<rparr>),
       g_next_session_id = 65, pthread_joins = 0 \<rparr>"

definition connected_registry :: client_api where
  "connected_registry =
     \<lparr> g_sessions = (\<lambda>_. zero_session)
         (0 := zero_session\<lparr> session_id := 1, config := valid_config,
                 state := CLIENT_STATE_CONNECTED, worker_thread := 7, thread_running := True,
                 is_active := True, is_connected := True \<rparr>),
       g_next_session_id = 2, pthread_joins = 0 \<rparr>"

text \<open>The forward order of the state machine, the messages of the transitions into
  these states, and the event emitted on entering the \<open>m\<close>-th of them: by
  \<^verbatim>\<open>ovpn_client_connect\<close> at time \<open>now\<close> for \<open>m = 0\<close>, by pass \<open>m - 1\<close> of the worker
  otherwise.\<close>

definition forward_states :: "ovpn_client_state_t list" where
  "forward_states =
     [CLIENT_STATE_CONNECTING, CLIENT_STATE_AUTH, CLIENT_STATE_GET_CONFIG,
      CLIENT_STATE_ASSIGN_IP, CLIENT_STATE_ADD_ROUTES, CLIENT_STATE_CONNECTED]"

definition forward_messages :: "string list" where
  "forward_messages =
     [''Connection initiated'', ''Authenticating'', ''Getting configuration'',
      ''Assigning IP'', ''Adding routes'', ''Connected'']"

definition forward_event :: "32 word \<Rightarrow> int \<Rightarrow> (nat \<Rightarrow> int) \<Rightarrow> nat \<Rightarrow> ovpn_client_event_t" where
  "forward_event sid now clock m =
     \<lparr> ev_session_id = sid, ev_type = CLIENT_EVENT_STATE_CHANGE,
       ev_timestamp = (if m = 0 then now else clock (m - 1)),
       ev_state = forward_states ! m, ev_message = Some (forward_messages ! m),
       ev_data = None \<rparr>"

text \<open>The worker bound to slot \<open>i\<close> runs \<open>n\<close> passes of its loop.\<close>

definition run_worker ::
  "nat \<Rightarrow> (int \<Rightarrow> ovpn_client_session_t \<Rightarrow> ovpn_client_session_t) \<Rightarrow> (nat \<Rightarrow> int) \<Rightarrow>
   client_api \<Rightarrow> nat \<Rightarrow> client_api" where
  "run_worker n tick clock g i =
     g\<lparr> g_sessions := (g_sessions g)(i := client_worker_passes n tick clock (g_sessions g i)) \<rparr>"

text \<open>The newest 255 elements of a list.\<close>

definition window :: "'a list \<Rightarrow> 'a list" where
  "window xs = drop (length xs - 255) xs"

text \<open>The session runs a worker, is in the \<open>j\<close>-th forward state and its channel holds
  the newest 255 of the events \<open>xs\<close>.\<close>

definition at_stage ::
  "ovpn_client_session_t \<Rightarrow> 32 word \<Rightarrow> nat \<Rightarrow> ovpn_client_event_t list \<Rightarrow> bool" where
  "at_stage s sid j xs \<longleftrightarrow>
     thread_running s \<and> is_active s \<and> session_id s = sid \<and> queue_wf s \<and>
     state s = forward_states ! j \<and> pending_events s = window xs"

definition stage_event :: "32 word \<Rightarrow> int \<Rightarrow> nat \<Rightarrow> ovpn_client_event_t" where
  "stage_event sid now m =
     \<lparr> ev_session_id = sid, ev_type = CLIENT_EVENT_STATE_CHANGE, ev_timestamp = now,
       ev_state = forward_states ! m, ev_message = Some (forward_messages ! m),
       ev_data = None \<rparr>"

text \<open>The registry after one create call at program start.\<close>

definition created_registry :: client_api where
  "created_registry =
     snd (ovpn_client_create_session 100 client_api_start (Some valid_config) 0 0)"

section \<open>Connect and the worker, step by step\<close>

text \<open>
  \<^verbatim>\<open>ovpn_client_connect\<close> starts the worker (line 336) before it writes
  \<^verbatim>\<open>CLIENT_STATE_CONNECTING\<close> (line 346) and queues ``Connection initiated'' (line 349), and
  it holds no lock from one of these statements to the next: steps of the worker can
  fall between them. Here the rest of the call and the worker loop are step functions
  on the shared session, run in the order a schedule gives.
\<close>

text \<open>
  The part of \<^verbatim>\<open>ovpn_client_connect\<close> that runs under \<^verbatim>\<open>g_sessions_mutex\<close>, lines 307--342:
  the lookup, the two checks, \<^verbatim>\<open>parse_ovpn_config\<close>, the flag and \<^verbatim>\<open>pthread_create\<close>.
  \<open>Inl code\<close> is a return with that code; \<open>Inr i\<close> means that the call goes on with
  \<^verbatim>\<open>session = &g_sessions[i]\<close>. The worker does not exist before \<^verbatim>\<open>pthread_create\<close>, and
  after it this part only unlocks, so no step of the worker falls inside.
\<close>

definition connect_begin ::
  "nat option \<Rightarrow> client_api \<Rightarrow> 32 word \<Rightarrow> (int + nat) \<times> client_api" where
  "connect_begin spawn g sid =
     (case find_session (g_sessions g) sid of
        None \<Rightarrow> (Inl OVPN_ERROR_SESSION_NOT_FOUND, g)
      | Some i \<Rightarrow>
          let session = g_sessions g i in
          if is_connected session \<or> thread_running session
          then (Inl OVPN_ERROR_ALREADY_CONNECTED, g)
          else let ret = parse_ovpn_config session in
          if ret \<noteq> OVPN_ERROR_SUCCESS then (Inl ret, g)
          else (case spawn of
                  None \<Rightarrow>
                    (Inl OVPN_ERROR_THREAD_ERROR,
                     g\<lparr> g_sessions := (g_sessions g)
                          (i := (session\<lparr> thread_running := True \<rparr>)\<lparr> thread_running := False \<rparr>) \<rparr>)
                | Some t \<Rightarrow>
                    (Inr i,
                     g\<lparr> g_sessions := (g_sessions g)
                          (i := session\<lparr> thread_running := True, worker_thread := t \<rparr>) \<rparr>)))"

text \<open>
  Where the caller stands in the rest of \<^verbatim>\<open>ovpn_client_connect\<close>: before the state write
  under \<^verbatim>\<open>state_mutex\<close> (lines 345--347), before the call of \<^verbatim>\<open>client_event_handler\<close>
  (line 349), or returned.
\<close>

datatype connect_pc = CONNECT_SET_STATE | CONNECT_EVENT | CONNECT_RETURNED

text \<open>
  Where the worker stands in \<^verbatim>\<open>client_worker_thread\<close>: at the loop test (line 657), at the
  read of the state under \<^verbatim>\<open>state_mutex\<close> (lines 658--660), at the case of the
  \<^verbatim>\<open>switch\<close> for the value it read (lines 662--719), at the \<^verbatim>\<open>client_event_handler\<close> call
  of that case with its message, at the auto-reconnect test (lines 722--723), after the
  \<^verbatim>\<open>sleep\<close> at the test of the flag (lines 724--725), at the state write of the reconnect
  (lines 726--728), at its event (line 729), at the two writes after the loop (lines 737
  and 738--740), or returned. The state carried along is the local variable
  \<^verbatim>\<open>current_state\<close>.
\<close>

datatype worker_pc =
    WORKER_LOOP_TEST
  | WORKER_READ_STATE
  | WORKER_SWITCH ovpn_client_state_t
  | WORKER_EVENT ovpn_client_state_t string
  | WORKER_RECONNECT_TEST ovpn_client_state_t
  | WORKER_RECONNECT_SLEEP
  | WORKER_RECONNECT_WRITE
  | WORKER_RECONNECT_EVENT
  | WORKER_CLEANUP
  | WORKER_CLEANUP_STATE
  | WORKER_RETURNED

text \<open>
  The session shared by the two threads, and where each of them stands. The next three
  fields are history kept beside the code: \<open>state_writes\<close> lists every value written to
  \<^verbatim>\<open>session->state\<close>, \<open>handler_calls\<close> every event written by
  \<^verbatim>\<open>client_event_handler\<close>, both in the order of the writes and calls, and
  \<open>housekeeping_passes\<close> counts the passes the worker made through the case
  \<^verbatim>\<open>CLIENT_STATE_CONNECTED\<close>. \<open>steps_taken\<close> is the index into the clock.
\<close>

record connect_run =
  the_session :: ovpn_client_session_t
  caller_at :: connect_pc
  worker_at :: worker_pc
  state_writes :: "ovpn_client_state_t list"
  handler_calls :: "ovpn_client_event_t list"
  housekeeping_passes :: nat
  steps_taken :: nat

text \<open>
A write to \<^verbatim>\<open>session->state\<close> under \<^verbatim>\<open>state_mutex\<close>, entered in the history.
\<close>

definition write_state :: "ovpn_client_state_t \<Rightarrow> connect_run \<Rightarrow> connect_run" where
  "write_state st c =
     c\<lparr> the_session := (the_session c)\<lparr> state := st \<rparr>,
        state_writes := state_writes c @ [st] \<rparr>"

text \<open>
  A call \<^verbatim>\<open>client_event_handler(session, type, message, NULL, 0)\<close>, entered in the history.
  The handler takes \<^verbatim>\<open>event_mutex\<close> and reads \<^verbatim>\<open>session->state\<close> once inside, so the
  call is one step.
\<close>

definition call_handler ::
  "int \<Rightarrow> ovpn_client_event_type_t \<Rightarrow> string \<Rightarrow> connect_run \<Rightarrow> connect_run" where
  "call_handler now type message c =
     c\<lparr> the_session := client_event_handler now (the_session c) type (Some message) None,
        handler_calls :=
          handler_calls c @ [make_event now (the_session c) type (Some message) None] \<rparr>"

text \<open>
The next step of the caller in \<^verbatim>\<open>ovpn_client_connect\<close>, lines 345--351.
\<close>

definition connect_step :: "int \<Rightarrow> connect_run \<Rightarrow> connect_run" where
  "connect_step now c =
     (case caller_at c of
        CONNECT_SET_STATE \<Rightarrow>
          (write_state CLIENT_STATE_CONNECTING c)\<lparr> caller_at := CONNECT_EVENT \<rparr>
      | CONNECT_EVENT \<Rightarrow>
          (call_handler now CLIENT_EVENT_STATE_CHANGE ''Connection initiated'' c)
            \<lparr> caller_at := CONNECT_RETURNED \<rparr>
      | CONNECT_RETURNED \<Rightarrow> c)"

text \<open>
  The case of the \<^verbatim>\<open>switch\<close> for the value the worker read (lines 662--719): the state
  write of the case under \<^verbatim>\<open>state_mutex\<close>. The \<^verbatim>\<open>client_event_handler\<close> call of the case
  is the step after it. In the case \<^verbatim>\<open>CLIENT_STATE_CONNECTED\<close> the worker refreshes
  statistics and quality and may probe the latency: the parameter \<open>tick\<close>, as in
  \<^verbatim>\<open>client_worker_iteration\<close>.
\<close>

definition worker_switch ::
  "(int \<Rightarrow> ovpn_client_session_t \<Rightarrow> ovpn_client_session_t) \<Rightarrow> int \<Rightarrow>
   ovpn_client_state_t \<Rightarrow> connect_run \<Rightarrow> connect_run" where
  "worker_switch tick now current_state c =
     (case current_state of
        CLIENT_STATE_CONNECTING \<Rightarrow>
          (write_state CLIENT_STATE_AUTH c)
            \<lparr> worker_at := WORKER_EVENT current_state ''Authenticating'' \<rparr>
      | CLIENT_STATE_AUTH \<Rightarrow>
          (write_state CLIENT_STATE_GET_CONFIG c)
            \<lparr> worker_at := WORKER_EVENT current_state ''Getting configuration'' \<rparr>
      | CLIENT_STATE_GET_CONFIG \<Rightarrow>
          (write_state CLIENT_STATE_ASSIGN_IP c)
            \<lparr> worker_at := WORKER_EVENT current_state ''Assigning IP'' \<rparr>
      | CLIENT_STATE_ASSIGN_IP \<Rightarrow>
          (write_state CLIENT_STATE_ADD_ROUTES c)
            \<lparr> worker_at := WORKER_EVENT current_state ''Adding routes'' \<rparr>
      | CLIENT_STATE_ADD_ROUTES \<Rightarrow>
          (let c1 = write_state CLIENT_STATE_CONNECTED c
           in c1\<lparr> the_session := (the_session c1)
                     \<lparr> is_connected := True,
                       stats := (stats (the_session c1))\<lparr> connected_since := now \<rparr> \<rparr>,
                   worker_at := WORKER_EVENT current_state ''Connected'' \<rparr>)
      | CLIENT_STATE_CONNECTED \<Rightarrow>
          c\<lparr> the_session := tick now (the_session c),
             housekeeping_passes := Suc (housekeeping_passes c),
             worker_at := WORKER_RECONNECT_TEST current_state \<rparr>
      | _ \<Rightarrow> c\<lparr> worker_at := WORKER_RECONNECT_TEST current_state \<rparr>)"

text \<open>
  The next step of the worker. A step is one region under a mutex, or the unlocked reads
  of one condition or one unlocked write; \<^verbatim>\<open>usleep\<close> at the end of the pass touches
  nothing.
\<close>

definition worker_step ::
  "(int \<Rightarrow> ovpn_client_session_t \<Rightarrow> ovpn_client_session_t) \<Rightarrow> int \<Rightarrow>
   connect_run \<Rightarrow> connect_run" where
  "worker_step tick now c =
     (case worker_at c of
        WORKER_LOOP_TEST \<Rightarrow>
          c\<lparr> worker_at := (if thread_running (the_session c)
                            then WORKER_READ_STATE else WORKER_CLEANUP) \<rparr>
      | WORKER_READ_STATE \<Rightarrow> c\<lparr> worker_at := WORKER_SWITCH (state (the_session c)) \<rparr>
      | WORKER_SWITCH current_state \<Rightarrow> worker_switch tick now current_state c
      | WORKER_EVENT current_state message \<Rightarrow>
          (call_handler now CLIENT_EVENT_STATE_CHANGE message c)
            \<lparr> worker_at := WORKER_RECONNECT_TEST current_state \<rparr>
      | WORKER_RECONNECT_TEST current_state \<Rightarrow>
          c\<lparr> worker_at :=
               (if \<not> is_connected (the_session c) \<and> auto_reconnect (config (the_session c)) \<and>
                   current_state = CLIENT_STATE_DISCONNECTED
                then WORKER_RECONNECT_SLEEP else WORKER_LOOP_TEST) \<rparr>
      | WORKER_RECONNECT_SLEEP \<Rightarrow>
          c\<lparr> worker_at := (if thread_running (the_session c)
                            then WORKER_RECONNECT_WRITE else WORKER_LOOP_TEST) \<rparr>
      | WORKER_RECONNECT_WRITE \<Rightarrow>
          (write_state CLIENT_STATE_CONNECTING c)\<lparr> worker_at := WORKER_RECONNECT_EVENT \<rparr>
      | WORKER_RECONNECT_EVENT \<Rightarrow>
          (call_handler now CLIENT_EVENT_RECONNECT ''Auto-reconnecting'' c)
            \<lparr> worker_at := WORKER_LOOP_TEST \<rparr>
      | WORKER_CLEANUP \<Rightarrow>
          c\<lparr> the_session := (the_session c)\<lparr> is_connected := False \<rparr>,
             worker_at := WORKER_CLEANUP_STATE \<rparr>
      | WORKER_CLEANUP_STATE \<Rightarrow>
          (write_state CLIENT_STATE_DISCONNECTED c)\<lparr> worker_at := WORKER_RETURNED \<rparr>
      | WORKER_RETURNED \<Rightarrow> c)"

text \<open>
The two threads, and a step of the one that the schedule names. Every step reads the
  clock once.
\<close>

datatype thread = CALLER | WORKER

definition step ::
  "(int \<Rightarrow> ovpn_client_session_t \<Rightarrow> ovpn_client_session_t) \<Rightarrow> (nat \<Rightarrow> int) \<Rightarrow>
   thread \<Rightarrow> connect_run \<Rightarrow> connect_run" where
  "step tick clock t c =
     (case t of
        CALLER \<Rightarrow> connect_step (clock (steps_taken c)) c
      | WORKER \<Rightarrow> worker_step tick (clock (steps_taken c)) c)
     \<lparr> steps_taken := Suc (steps_taken c) \<rparr>"

text \<open>
The run of a schedule: the threads take their steps in the order the schedule lists
  them. A thread that has returned stays where it is.
\<close>

fun run ::
  "(int \<Rightarrow> ovpn_client_session_t \<Rightarrow> ovpn_client_session_t) \<Rightarrow> (nat \<Rightarrow> int) \<Rightarrow>
   thread list \<Rightarrow> connect_run \<Rightarrow> connect_run" where
  "run tick clock [] c = c"
| "run tick clock (t # schedule) c = run tick clock schedule (step tick clock t c)"

text \<open>
  The moment after \<^verbatim>\<open>pthread_create\<close>: the caller is about to write the state, the worker
  about to test its loop condition.
\<close>

definition spawned :: "ovpn_client_session_t \<Rightarrow> connect_run" where
  "spawned session =
     \<lparr> the_session = session, caller_at = CONNECT_SET_STATE, worker_at = WORKER_LOOP_TEST,
       state_writes = [], handler_calls = [], housekeeping_passes = 0, steps_taken = 0 \<rparr>"

text \<open>
  The events that \<^verbatim>\<open>ovpn_client_connect\<close> queues, told from those of the worker by the
  message; what an event carries: the state and the message.
\<close>

definition by_caller :: "ovpn_client_event_t \<Rightarrow> bool" where
  "by_caller e \<longleftrightarrow> ev_message e = Some ''Connection initiated''"

definition carried :: "ovpn_client_event_t \<Rightarrow> ovpn_client_state_t \<times> string option" where
  "carried e = (ev_state e, ev_message e)"

text \<open>
The forward states, each with the message of the transition into it.
\<close>

definition transition_events :: "(ovpn_client_state_t \<times> string option) list" where
  "transition_events = zip forward_states (map Some forward_messages)"

text \<open>
1 when the worker has written a state and not yet called \<^verbatim>\<open>client_event_handler\<close> for it.
\<close>

fun event_due :: "worker_pc \<Rightarrow> nat" where
  "event_due (WORKER_EVENT current_state message) = 1"
| "event_due _ = 0"

text \<open>
  What holds of the worker's position when \<open>k\<close> states have been written: the value it
  read is the current state, or \<open>Initial\<close> read before the caller's write; an event that is
  due carries the message of the last transition; the reconnect and cleanup positions
  are not reached.
\<close>

fun worker_ok :: "worker_pc \<Rightarrow> nat \<Rightarrow> bool" where
  "worker_ok WORKER_LOOP_TEST k = True"
| "worker_ok WORKER_READ_STATE k = True"
| "worker_ok (WORKER_SWITCH current_state) k =
     (current_state = CLIENT_STATE_INITIAL \<or>
      current_state = (CLIENT_STATE_INITIAL # forward_states) ! k)"
| "worker_ok (WORKER_EVENT current_state message) k =
     (2 \<le> k \<and> message = forward_messages ! (k - 1) \<and>
      current_state \<noteq> CLIENT_STATE_DISCONNECTED)"
| "worker_ok (WORKER_RECONNECT_TEST current_state) k =
     (current_state \<noteq> CLIENT_STATE_DISCONNECTED)"
| "worker_ok _ k = False"

text \<open>
  The invariant of a run in which the worker has not yet made a pass in state Connected.
  \<open>xs\<close> are the events that were waiting at the start.
\<close>

definition forward_run :: "32 word \<Rightarrow> ovpn_client_event_t list \<Rightarrow> connect_run \<Rightarrow> bool" where
  "forward_run sid xs c \<longleftrightarrow>
     thread_running (the_session c) \<and> is_active (the_session c) \<and>
     session_id (the_session c) = sid \<and> queue_wf (the_session c) \<and>
     pending_events (the_session c) = window (xs @ handler_calls c) \<and>
     length (state_writes c) \<le> 6 \<and>
     state_writes c = take (length (state_writes c)) forward_states \<and>
     state (the_session c) = (CLIENT_STATE_INITIAL # forward_states) ! length (state_writes c) \<and>
     (caller_at c = CONNECT_SET_STATE) = (state_writes c = []) \<and>
     worker_ok (worker_at c) (length (state_writes c)) \<and>
     map ev_type (handler_calls c) =
       replicate (length (handler_calls c)) CLIENT_EVENT_STATE_CHANGE \<and>
     map carried (filter (\<lambda>e. \<not> by_caller e) (handler_calls c)) =
       take (length (state_writes c) - 1 - event_due (worker_at c)) (tl transition_events) \<and>
     length (filter by_caller (handler_calls c)) =
       (if caller_at c = CONNECT_RETURNED then 1 else 0)"



definition registry_after :: "client_api \<Rightarrow> nat \<Rightarrow> connect_run \<Rightarrow> client_api" where
  "registry_after g i c = g\<lparr> g_sessions := (g_sessions g)(i := the_session c) \<rparr>"


text \<open>
The number of steps of one pass of the loop, by the state the pass reads.
\<close>

definition pass_steps :: "ovpn_client_session_t \<Rightarrow> nat" where
  "pass_steps s =
     (if state s \<in> {CLIENT_STATE_CONNECTING, CLIENT_STATE_AUTH, CLIENT_STATE_GET_CONFIG,
                     CLIENT_STATE_ASSIGN_IP, CLIENT_STATE_ADD_ROUTES} then 5
      else if state s = CLIENT_STATE_DISCONNECTED \<and> \<not> is_connected s \<and>
              auto_reconnect (config s) then 7
      else 4)"

section \<open>Server API\<close>

text \<open>The server side follows \<^verbatim>\<open>openvpn_server_api.h\<close> and \<^verbatim>\<open>openvpn_server_api.c\<close>. A \<^verbatim>\<open>char\<close>
  array holding a C string is a \<open>string\<close>; \<^verbatim>\<open>strncpy(dst, src, sizeof dst - 1)\<close> into
  a zeroed array keeps the first \<^verbatim>\<open>sizeof dst - 1\<close> characters.\<close>

definition MAX_SERVER_CLIENTS :: nat where
  "MAX_SERVER_CLIENTS = 1000"

text \<open>\<^verbatim>\<open>ovpn_server_config_t\<close>: the fields that \<^verbatim>\<open>ovpn_server_init\<close> sets. The others stay
  zero and are read by none of the functions below.\<close>

record ovpn_server_config_t =
  server_name :: string
  listen_address :: string
  listen_port :: int
  protocol :: string
  device_type :: string
  server_subnet :: string
  cipher :: string
  auth_digest :: string
  max_clients :: int
  keepalive_ping :: int
  keepalive_timeout :: int
  log_verbosity :: int

text \<open>\<^verbatim>\<open>ovpn_client_info_t\<close>: identity, static address, access control and the live-session
  flag. \<open>client_is_active\<close> is the field \<^verbatim>\<open>is_active\<close> (the session record has a field of
  that name). \<open>static_ip\<close> holds the address as a host-order number, that is
  \<^verbatim>\<open>ntohl(static_ip.s_addr)\<close>: the code stores \<^verbatim>\<open>htonl(ip)\<close> and reads it back only through
  \<^verbatim>\<open>ntohl\<close>. Routes, certificate data and counters are left out.\<close>

record ovpn_client_info_t =
  client_id :: "32 word"
  common_name :: string
  email :: string
  description :: string
  static_ip :: "32 word"
  has_static_ip :: bool
  client_is_active :: bool
  is_revoked :: bool
  created_time :: int
  revoked_time :: int
  revocation_reason :: string
  currently_connected :: bool

text \<open>\<^verbatim>\<open>ovpn_server_context_t\<close>: configuration, the client table with its two counters,
  and the state flags. \<open>server_config\<close> is the field \<^verbatim>\<open>config\<close>.\<close>

record ovpn_server_context_t =
  server_config :: ovpn_server_config_t
  clients :: "nat \<Rightarrow> ovpn_client_info_t"
  client_count :: nat
  next_client_id :: "32 word"
  is_running :: bool
  is_initialized :: bool

text \<open>A record after \<^verbatim>\<open>memset(client, 0, sizeof *client)\<close>.\<close>

definition zero_client_info :: ovpn_client_info_t where
  "zero_client_info = \<lparr> client_id = 0, common_name = [], email = [], description = [],
     static_ip = 0, has_static_ip = False, client_is_active = False, is_revoked = False,
     created_time = 0, revoked_time = 0, revocation_reason = [], currently_connected = False \<rparr>"

text \<open>The context that \<^verbatim>\<open>ovpn_server_init\<close> returns when its allocation succeeds
  (lines 54--87).\<close>

definition ovpn_server_init :: ovpn_server_context_t where
  "ovpn_server_init =
     \<lparr> server_config =
         \<lparr> server_name = ''OpenVPN Server'', listen_address = ''0.0.0.0'', listen_port = 1194,
           protocol = ''udp'', device_type = ''tun'', server_subnet = ''10.8.0.0/24'',
           cipher = ''AES-256-GCM'', auth_digest = ''SHA256'', max_clients = 100,
           keepalive_ping = 10, keepalive_timeout = 120, log_verbosity = 3 \<rparr>,
       clients = (\<lambda>_. zero_client_info), client_count = 0, next_client_id = 1,
       is_running = False, is_initialized = True \<rparr>"

text \<open>libc, as far as \<^verbatim>\<open>allocate_static_ip\<close> uses it. \<open>atoi\<close> skips white space, reads an
  optional sign and the decimal digits that follow (no overflow in the model).
  \<open>inet_addr_host s\<close> is \<^verbatim>\<open>ntohl(inet_addr(s))\<close> for the dotted-decimal form
  \<^verbatim>\<open>a.b.c.d\<close> with four decimal parts of at most 255 and no leading zeros; every other
  string gives \<^verbatim>\<open>INADDR_NONE\<close> in the model (libc also reads octal, hexadecimal and
  shorter forms, which no theorem below uses).\<close>

definition isdigit :: "char \<Rightarrow> bool" where
  "isdigit c \<longleftrightarrow> 48 \<le> (of_char c :: nat) \<and> (of_char c :: nat) \<le> 57"

definition isspace :: "char \<Rightarrow> bool" where
  "isspace c \<longleftrightarrow> (of_char c :: nat) = 32 \<or> (9 \<le> (of_char c :: nat) \<and> (of_char c :: nat) \<le> 13)"

definition digit_value :: "char \<Rightarrow> nat" where
  "digit_value c = of_char c - 48"

fun read_digits :: "string \<Rightarrow> nat \<Rightarrow> nat" where
  "read_digits [] acc = acc"
| "read_digits (c # cs) acc =
     (if isdigit c then read_digits cs (acc * 10 + digit_value c) else acc)"

definition atoi :: "string \<Rightarrow> int" where
  "atoi s =
     (case dropWhile isspace s of
        [] \<Rightarrow> 0
      | c # cs \<Rightarrow>
          if c = CHR ''-'' then - int (read_digits cs 0)
          else if c = CHR ''+'' then int (read_digits cs 0)
          else int (read_digits (c # cs) 0))"

fun split_at :: "char \<Rightarrow> string \<Rightarrow> string list" where
  "split_at sep [] = [[]]"
| "split_at sep (c # cs) =
     (if c = sep then [] # split_at sep cs
      else (case split_at sep cs of
              [] \<Rightarrow> [[c]]
            | p # ps \<Rightarrow> (c # p) # ps))"

definition decimal_octet :: "string \<Rightarrow> nat option" where
  "decimal_octet p =
     (if p \<noteq> [] \<and> list_all isdigit p \<and> (length p = 1 \<or> hd p \<noteq> CHR ''0'') \<and>
         read_digits p 0 \<le> 255
      then Some (read_digits p 0) else None)"

definition INADDR_NONE :: "32 word" where
  "INADDR_NONE = 0xFFFFFFFF"

definition inet_addr_host :: "string \<Rightarrow> 32 word" where
  "inet_addr_host s =
     (case map decimal_octet (split_at (CHR ''.'') s) of
        [Some a, Some b, Some c, Some d] \<Rightarrow>
          of_nat (((a * 256 + b) * 256 + c) * 256 + d)
      | _ \<Rightarrow> INADDR_NONE)"

text \<open>\<^verbatim>\<open>slash = strchr(subnet, '/'); *slash = '\0'\<close>: the text before the first
  separator and the text after it, \<open>None\<close> when there is none.\<close>

fun strchr_split :: "char \<Rightarrow> string \<Rightarrow> (string \<times> string) option" where
  "strchr_split sep [] = None"
| "strchr_split sep (c # cs) =
     (if c = sep then Some ([], cs)
      else (case strchr_split sep cs of
              None \<Rightarrow> None
            | Some (before, after) \<Rightarrow> Some (c # before, after)))"

text \<open>The inner loop of \<^verbatim>\<open>allocate_static_ip\<close> (lines 436--442), entered with index \<open>j\<close>.\<close>

function ip_in_use_from :: "(nat \<Rightarrow> ovpn_client_info_t) \<Rightarrow> nat \<Rightarrow> 32 word \<Rightarrow> nat \<Rightarrow> bool" where
  "ip_in_use_from cl count ip j =
     (if j < count
      then (if has_static_ip (cl j) \<and> static_ip (cl j) = ip then True
            else ip_in_use_from cl count ip (j + 1))
      else False)"
  by pat_completeness auto

termination
  by (relation "measure (\<lambda>(cl, count, ip, j). count - j)") auto

text \<open>The outer loop of \<^verbatim>\<open>allocate_static_ip\<close> (lines 431--447), entered with offset \<open>i\<close>;
  \<open>limit\<close> is the bound \<^verbatim>\<open>(1 << (32 - prefix)) - 1\<close> converted to \<^verbatim>\<open>uint32_t\<close>. The offset
  stays below the bound, so \<^verbatim>\<open>i++\<close> never wraps and \<open>i\<close> is a \<open>nat\<close>; the address
  \<^verbatim>\<open>network + i\<close> is computed modulo \<open>2 ^ 32\<close>.\<close>

function alloc_scan ::
  "(nat \<Rightarrow> ovpn_client_info_t) \<Rightarrow> nat \<Rightarrow> 32 word \<Rightarrow> nat \<Rightarrow> nat \<Rightarrow> 32 word" where
  "alloc_scan cl count network limit i =
     (if i < limit
      then (let ip = network + of_nat i in
            if ip_in_use_from cl count ip 0 then alloc_scan cl count network limit (i + 1)
            else ip)
      else 0)"
  by pat_completeness auto

termination
  by (relation "measure (\<lambda>(cl, count, network, limit, i). limit - i)") auto

text \<open>\<^verbatim>\<open>(1 << (32 - prefix)) - 1\<close> as a 32-bit value. For a prefix length outside 1..32
  the C expression is undefined; no theorem below uses the model's value there.\<close>

definition host_limit :: "int \<Rightarrow> nat" where
  "host_limit prefix_len = unat ((push_bit (nat (32 - prefix_len)) 1 :: 32 word) - 1)"

text \<open>\<^verbatim>\<open>allocate_static_ip(ctx)\<close>, lines 417--450.\<close>

definition allocate_static_ip :: "ovpn_server_context_t \<Rightarrow> 32 word" where
  "allocate_static_ip ctx =
     (case strchr_split (CHR ''/'') (take 31 (server_subnet (server_config ctx))) of
        None \<Rightarrow> 0
      | Some (subnet, after_slash) \<Rightarrow>
          let network = inet_addr_host subnet;
              prefix_len = atoi after_slash
          in alloc_scan (clients ctx) (client_count ctx) network (host_limit prefix_len) 10)"

text \<open>The duplicate check of \<^verbatim>\<open>ovpn_server_create_client\<close> (lines 370--376), entered with
  index \<open>i\<close>.\<close>

function duplicate_cn_from :: "(nat \<Rightarrow> ovpn_client_info_t) \<Rightarrow> nat \<Rightarrow> string \<Rightarrow> nat \<Rightarrow> bool" where
  "duplicate_cn_from cl count cn i =
     (if i < count
      then (if common_name (cl i) = cn \<and> \<not> is_revoked (cl i) then True
            else duplicate_cn_from cl count cn (i + 1))
      else False)"
  by pat_completeness auto

termination
  by (relation "measure (\<lambda>(cl, count, cn, i). count - i)") auto

text \<open>\<^verbatim>\<open>if (src) strncpy(dst, src, n)\<close> into a zeroed array of more than \<open>n\<close> bytes.\<close>

definition strncpy_zeroed :: "nat \<Rightarrow> string option \<Rightarrow> string" where
  "strncpy_zeroed n src = (case src of None \<Rightarrow> [] | Some s \<Rightarrow> take n s)"

text \<open>\<^verbatim>\<open>ovpn_server_create_client(ctx, common_name, email, description)\<close>, lines 354--415.
  \<^verbatim>\<open>generate_client_certificate_files\<close> returns 0 without touching the context, and the
  event callback is foreign code, so neither changes the result.\<close>

definition ovpn_server_create_client ::
  "int \<Rightarrow> ovpn_server_context_t \<Rightarrow> string option \<Rightarrow> string option \<Rightarrow> string option \<Rightarrow>
   32 word \<times> ovpn_server_context_t" where
  "ovpn_server_create_client now ctx cn_ptr email_ptr description_ptr =
     (case cn_ptr of
        None \<Rightarrow> (0, ctx)
      | Some cn \<Rightarrow>
          if client_count ctx \<ge> MAX_SERVER_CLIENTS then (0, ctx)
          else if duplicate_cn_from (clients ctx) (client_count ctx) cn 0 then (0, ctx)
          else
            let slot = client_count ctx;
                client = zero_client_info
                  \<lparr> client_id := next_client_id ctx,
                    common_name := take 255 cn,
                    email := strncpy_zeroed 255 email_ptr,
                    description := strncpy_zeroed 511 description_ptr,
                    client_is_active := True,
                    created_time := now \<rparr>;
                ctx1 = ctx\<lparr> clients := (clients ctx)(slot := client),
                            next_client_id := next_client_id ctx + 1 \<rparr>;
                client' =
                  (if \<not> has_static_ip client
                   then (let ip = allocate_static_ip ctx1 in
                         if ip \<noteq> 0 then client\<lparr> static_ip := ip, has_static_ip := True \<rparr>
                         else client)
                   else client);
                ctx2 = ctx1\<lparr> clients := (clients ctx1)(slot := client'),
                             client_count := client_count ctx1 + 1 \<rparr>
            in (client_id client', ctx2))"

text \<open>The lookup loop by client identifier (lines 607--612), entered with index \<open>i\<close>.\<close>

function find_client_from :: "(nat \<Rightarrow> ovpn_client_info_t) \<Rightarrow> nat \<Rightarrow> 32 word \<Rightarrow> nat \<Rightarrow> nat option" where
  "find_client_from cl count cid i =
     (if i < count
      then (if client_id (cl i) = cid then Some i else find_client_from cl count cid (i + 1))
      else None)"
  by pat_completeness auto

termination
  by (relation "measure (\<lambda>(cl, count, cid, i). count - i)") auto

text \<open>Modelled from the spec: \<^verbatim>\<open>ovpn_server_disconnect_client\<close> is declared in
  \<^verbatim>\<open>openvpn_server_api.h\<close> and called by \<^verbatim>\<open>ovpn_server_revoke_client\<close>, but it is not
  defined in the sources. The spec (4.4) says that revoking a connected client
  ``triggers a disconnect of the live session (delegated to the tunnel engine
  collaborator)''; the model clears the record's \<^verbatim>\<open>currently_connected\<close> flag and
  changes nothing else.\<close>

definition ovpn_server_disconnect_client ::
  "ovpn_server_context_t \<Rightarrow> 32 word \<Rightarrow> ovpn_server_context_t" where
  "ovpn_server_disconnect_client ctx cid =
     (case find_client_from (clients ctx) (client_count ctx) cid 0 of
        None \<Rightarrow> ctx
      | Some i \<Rightarrow> ctx\<lparr> clients := (clients ctx)
                        (i := (clients ctx i)\<lparr> currently_connected := False \<rparr>) \<rparr>)"

text \<open>\<^verbatim>\<open>ovpn_server_revoke_client(ctx, client_id, reason)\<close>, lines 597--637.\<close>

definition ovpn_server_revoke_client ::
  "int \<Rightarrow> ovpn_server_context_t \<Rightarrow> 32 word \<Rightarrow> string option \<Rightarrow> int \<times> ovpn_server_context_t" where
  "ovpn_server_revoke_client now ctx cid reason =
     (if cid = 0 then (- 1, ctx)
      else (case find_client_from (clients ctx) (client_count ctx) cid 0 of
              None \<Rightarrow> (- 1, ctx)
            | Some i \<Rightarrow>
                let client = clients ctx i;
                    client' = client
                      \<lparr> is_revoked := True,
                        client_is_active := False,
                        revoked_time := now,
                        revocation_reason :=
                          (case reason of
                             None \<Rightarrow> revocation_reason client
                           | Some r \<Rightarrow> strncpy_zeroed 255 (Some r)) \<rparr>;
                    ctx1 = ctx\<lparr> clients := (clients ctx)(i := client') \<rparr>
                in (0, if currently_connected client'
                       then ovpn_server_disconnect_client ctx1 cid else ctx1)))"

text \<open>The record that \<^verbatim>\<open>ovpn_server_create_client\<close> appends.\<close>

definition created_client :: "int \<Rightarrow> ovpn_server_context_t \<Rightarrow> string \<Rightarrow> string option \<Rightarrow> string option \<Rightarrow> ovpn_client_info_t" where
  "created_client now ctx cn email_ptr description_ptr =
     (let client = zero_client_info
            \<lparr> client_id := next_client_id ctx, common_name := take 255 cn,
              email := strncpy_zeroed 255 email_ptr,
              description := strncpy_zeroed 511 description_ptr,
              client_is_active := True, created_time := now \<rparr>
      in if allocate_static_ip ctx \<noteq> 0
         then client\<lparr> static_ip := allocate_static_ip ctx, has_static_ip := True \<rparr>
         else client)"

text \<open>The host-order number of the address \<^verbatim>\<open>a.b.c.d\<close>.\<close>

definition ipv4 :: "nat \<Rightarrow> nat \<Rightarrow> nat \<Rightarrow> nat \<Rightarrow> 32 word" where
  "ipv4 a b c d = of_nat (((a * 256 + b) * 256 + c) * 256 + d)"

text \<open>The context with subnet \<^verbatim>\<open>10.8.0.0/24\<close> after 245 clients named ``x'', ``xx'', ...
  were created at time 0: the scan range \<^verbatim>\<open>.10\<close> to \<^verbatim>\<open>.254\<close> is used up.\<close>

definition exhausted_ctx :: ovpn_server_context_t where
  "exhausted_ctx =
     ovpn_server_init
       \<lparr> clients := (\<lambda>j. if j < 245
                          then zero_client_info
                                 \<lparr> client_id := of_nat j + 1,
                                   common_name := replicate (Suc j) (CHR ''x''),
                                   static_ip := ipv4 10 8 0 10 + of_nat j,
                                   has_static_ip := True,
                                   client_is_active := True \<rparr>
                          else zero_client_info),
         client_count := 245, next_client_id := 246 \<rparr>"

text \<open>The context after \<open>n\<close> calls of \<^verbatim>\<open>ovpn_server_create_client\<close> on the initial
  context, at time 0, with the names ``x'', ``xx'', ... and no e-mail or description.\<close>

fun create_clients :: "nat \<Rightarrow> ovpn_server_context_t" where
  "create_clients 0 = ovpn_server_init"
| "create_clients (Suc n) =
     snd (ovpn_server_create_client 0 (create_clients n)
            (Some (replicate (Suc n) (CHR ''x''))) None None)"

text \<open>The table that \<open>n\<close> such calls leave, written out (for \<open>n\<close> up to 245).\<close>

definition clients_table :: "nat \<Rightarrow> ovpn_server_context_t" where
  "clients_table n =
     ovpn_server_init
       \<lparr> clients := (\<lambda>j. if j < n
                          then zero_client_info
                                 \<lparr> client_id := of_nat j + 1,
                                   common_name := replicate (Suc j) (CHR ''x''),
                                   static_ip := ipv4 10 8 0 10 + of_nat j,
                                   has_static_ip := True,
                                   client_is_active := True \<rparr>
                          else zero_client_info),
         client_count := n, next_client_id := of_nat n + 1 \<rparr>"

text \<open>The initial context after one client ``alice'' was created.\<close>

definition alice_ctx :: ovpn_server_context_t where
  "alice_ctx =
     snd (ovpn_server_create_client 0 ovpn_server_init (Some ''alice'')
            (Some ''alice@example.org'') None)"

text \<open>
A common name of 256 characters, one more than the name field keeps.
\<close>

definition long_name :: string where
  "long_name = replicate 256 (CHR ''a'')"

text \<open>
The initial context after one client of that name was created.
\<close>

definition long_name_ctx :: ovpn_server_context_t where
  "long_name_ctx = snd (ovpn_server_create_client 0 ovpn_server_init (Some long_name) None None)"

section \<open>Client configuration documents\<close>

text \<open>
The document tree that \<^verbatim>\<open>cJSON_Parse\<close> builds. The cJSON library is an external
dependency of the repository; the tree and the accessors below follow its interface:
an object keeps its members in document order, and \<^verbatim>\<open>valueint\<close> is the number as
an \<^verbatim>\<open>int\<close>.
\<close>

datatype cJSON =
    cJSON_NULL
  | cJSON_False
  | cJSON_True
  | cJSON_Number int
  | cJSON_String string
  | cJSON_Array "cJSON list"
  | cJSON_Object "(string \<times> cJSON) list"

text \<open>
The argument \<^verbatim>\<open>const char *json_str\<close> seen through \<^verbatim>\<open>cJSON_Parse\<close>: a null
pointer, a text that does not parse (\<^verbatim>\<open>cJSON_Parse\<close> returns \<^verbatim>\<open>NULL\<close>), or a
text that parses to a document.
\<close>

datatype json_text = JSON_NULL_POINTER | JSON_MALFORMED | JSON_DOCUMENT cJSON

text \<open>\<^verbatim>\<open>tolower\<close> on ASCII, used by the name comparison of \<^verbatim>\<open>cJSON_GetObjectItem\<close>.\<close>

definition tolower :: "char \<Rightarrow> char" where
  "tolower c =
     (if 65 \<le> (of_char c :: nat) \<and> (of_char c :: nat) \<le> 90
      then char_of ((of_char c :: nat) + 32) else c)"

text \<open>
\<^verbatim>\<open>cJSON_GetObjectItem\<close> compares member names without regard to case.
\<close>

definition same_name :: "string \<Rightarrow> string \<Rightarrow> bool" where
  "same_name a b \<longleftrightarrow> map tolower a = map tolower b"

text \<open>The first member with the given name, scanning in document order.\<close>

fun find_item :: "(string \<times> cJSON) list \<Rightarrow> string \<Rightarrow> cJSON option" where
  "find_item [] name = None"
| "find_item ((k, v) # rest) name = (if same_name name k then Some v else find_item rest name)"

text \<open>
\<^verbatim>\<open>cJSON_GetObjectItem(object, name)\<close>; \<open>None\<close> is the \<^verbatim>\<open>NULL\<close> pointer, which the
call returns for a \<^verbatim>\<open>NULL\<close> object, for an item that is not an object and for a
name that is absent.
\<close>

definition cJSON_GetObjectItem :: "cJSON option \<Rightarrow> string \<Rightarrow> cJSON option" where
  "cJSON_GetObjectItem object name =
     (case object of
        Some (cJSON_Object members) \<Rightarrow> find_item members name
      | _ \<Rightarrow> None)"

text \<open>\<^verbatim>\<open>cJSON_IsObject\<close> and \<^verbatim>\<open>cJSON_IsTrue\<close>; both are false on \<^verbatim>\<open>NULL\<close>.\<close>

definition cJSON_IsObject :: "cJSON option \<Rightarrow> bool" where
  "cJSON_IsObject item = (case item of Some (cJSON_Object _) \<Rightarrow> True | _ \<Rightarrow> False)"

definition cJSON_IsTrue :: "cJSON option \<Rightarrow> bool" where
  "cJSON_IsTrue item = (case item of Some cJSON_True \<Rightarrow> True | _ \<Rightarrow> False)"

text \<open>
\<^verbatim>\<open>if (cJSON_IsString(item)) field = strdup(item->valuestring);\<close> with the field's
previous value otherwise.
\<close>

definition string_or :: "cJSON option \<Rightarrow> string option \<Rightarrow> string option" where
  "string_or item old = (case item of Some (cJSON_String s) \<Rightarrow> Some s | _ \<Rightarrow> old)"

text \<open>
\<^verbatim>\<open>if (cJSON_IsNumber(item)) field = (uint32_t)item->valueint; else field = other;\<close>
\<close>

definition number_or :: "cJSON option \<Rightarrow> 32 word \<Rightarrow> 32 word" where
  "number_or item other = (case item of Some (cJSON_Number valueint) \<Rightarrow> word_of_int valueint | _ \<Rightarrow> other)"

text \<open>
\<^verbatim>\<open>ovpn_client_parse_config_json(json_str, config)\<close>, lines 89--219, with a non-null
\<^verbatim>\<open>config\<close>. The result is the return code and the contents of \<^verbatim>\<open>*config\<close>
afterwards. \<open>c0\<close> is the structure after \<^verbatim>\<open>memset\<close>; \<open>c1\<close> to \<open>c7\<close> are its
contents after the profile name and after each of the groups \<^verbatim>\<open>auth\<close>,
\<^verbatim>\<open>certificates\<close>, \<^verbatim>\<open>connection\<close>, \<^verbatim>\<open>proxy\<close> and \<^verbatim>\<open>settings\<close>. The
defaults 30, 10, 1500 and 5 are assigned inside the guards of their groups, as in the
source.
\<close>

definition ovpn_client_parse_config_json ::
  "json_text \<Rightarrow> ovpn_client_config_t \<Rightarrow> int \<times> ovpn_client_config_t" where
  "ovpn_client_parse_config_json json_str config_in =
     (case json_str of
        JSON_NULL_POINTER \<Rightarrow> (OVPN_ERROR_INVALID_PARAM, config_in)
      | JSON_MALFORMED \<Rightarrow> (OVPN_ERROR_JSON_PARSE, config_in)
      | JSON_DOCUMENT document \<Rightarrow>
          let json = Some document;
              c0 = zero_config;
              c1 = c0\<lparr> profile_name :=
                     string_or (cJSON_GetObjectItem json ''profile_name'') (profile_name c0) \<rparr>
          in (case cJSON_GetObjectItem json ''ovpn_config'' of
                Some (cJSON_String text) \<Rightarrow>
                  let c2 = c1\<lparr> ovpn_config := Some text \<rparr>;
                      auth = cJSON_GetObjectItem json ''auth'';
                      c3 = (if cJSON_IsObject auth
                            then c2\<lparr> username :=
                                       string_or (cJSON_GetObjectItem auth ''username'') (username c2),
                                     password :=
                                       string_or (cJSON_GetObjectItem auth ''password'') (password c2) \<rparr>
                            else c2);
                      certificates = cJSON_GetObjectItem json ''certificates'';
                      c4 = (if cJSON_IsObject certificates
                            then c3\<lparr> cert_path :=
                                       string_or (cJSON_GetObjectItem certificates ''cert_path'')
                                         (cert_path c3),
                                     key_path :=
                                       string_or (cJSON_GetObjectItem certificates ''key_path'')
                                         (key_path c3),
                                     ca_path :=
                                       string_or (cJSON_GetObjectItem certificates ''ca_path'')
                                         (ca_path c3) \<rparr>
                            else c3);
                      connection = cJSON_GetObjectItem json ''connection'';
                      c5 = (if cJSON_IsObject connection
                            then c4\<lparr> auto_reconnect :=
                                       cJSON_IsTrue (cJSON_GetObjectItem connection ''auto_reconnect''),
                                     reconnect_interval :=
                                       number_or (cJSON_GetObjectItem connection ''reconnect_interval'') 30,
                                     ping_interval :=
                                       number_or (cJSON_GetObjectItem connection ''ping_interval'') 10,
                                     mtu_size :=
                                       number_or (cJSON_GetObjectItem connection ''mtu_size'') 1500 \<rparr>
                            else c4);
                      proxy = cJSON_GetObjectItem json ''proxy'';
                      c6 = (if cJSON_IsObject proxy
                            then c5\<lparr> proxy_host :=
                                       string_or (cJSON_GetObjectItem proxy ''host'') (proxy_host c5),
                                     proxy_port :=
                                       number_or (cJSON_GetObjectItem proxy ''port'') (proxy_port c5),
                                     proxy_username :=
                                       string_or (cJSON_GetObjectItem proxy ''username'')
                                         (proxy_username c5),
                                     proxy_password :=
                                       string_or (cJSON_GetObjectItem proxy ''password'')
                                         (proxy_password c5) \<rparr>
                            else c5);
                      settings = cJSON_GetObjectItem json ''settings'';
                      c7 = (if cJSON_IsObject settings
                            then c6\<lparr> enable_compression :=
                                       cJSON_IsTrue (cJSON_GetObjectItem settings ''enable_compression''),
                                     log_verbose :=
                                       cJSON_IsTrue (cJSON_GetObjectItem settings ''log_verbose''),
                                     stats_interval :=
                                       number_or (cJSON_GetObjectItem settings ''stats_interval'') 5 \<rparr>
                            else c6)
                  in (OVPN_ERROR_SUCCESS, c7)
              | _ \<Rightarrow> (OVPN_ERROR_CONFIG_INVALID, c1)))"

text \<open>The document \<^verbatim>\<open>{"ovpn_config": "client"}\<close>.\<close>

definition minimal_document :: cJSON where
  "minimal_document = cJSON_Object [(''ovpn_config'', cJSON_String ''client'')]"

text \<open>The document \<^verbatim>\<open>{"ovpn_config": "client", "connection": {}}\<close>.\<close>

definition empty_connection_document :: cJSON where
  "empty_connection_document =
     cJSON_Object [(''ovpn_config'', cJSON_String ''client''), (''connection'', cJSON_Object [])]"

text \<open>The member names that \<^verbatim>\<open>ovpn_client_parse_config_json\<close> looks up in the document itself.\<close>

definition top_level_names :: "string list" where
  "top_level_names =
     [''profile_name'', ''ovpn_config'', ''auth'', ''certificates'', ''connection'', ''proxy'',
      ''settings'']"

section \<open>Lemmas: the event channel\<close>

lemmas OVPN_ERROR_defs =
  OVPN_ERROR_SUCCESS_def OVPN_ERROR_INVALID_PARAM_def OVPN_ERROR_SESSION_NOT_FOUND_def
  OVPN_ERROR_ALREADY_CONNECTED_def OVPN_ERROR_NOT_CONNECTED_def OVPN_ERROR_CONFIG_INVALID_def
  OVPN_ERROR_THREAD_ERROR_def OVPN_ERROR_JSON_PARSE_def

lemma mod_256_if: "x < 512 \<Longrightarrow> x mod 256 = (if x < 256 then x else x - 256)" for x :: nat
  by (simp add: mod_if le_mod_geq)


lemma ring_count_less: "ring_count h t < 256"
  by (simp add: ring_count_def)

lemma ring_count_full_iff:
  "h < 256 \<Longrightarrow> t < 256 \<Longrightarrow> (t + 1) mod 256 = h \<longleftrightarrow> ring_count h t = 255"
  by (auto simp: ring_count_def mod_256_if split: if_splits)

lemma ring_count_push:
  "h < 256 \<Longrightarrow> t < 256 \<Longrightarrow> ring_count h t \<noteq> 255 \<Longrightarrow>
   ring_count h ((t + 1) mod 256) = ring_count h t + 1"
  by (auto simp: ring_count_def mod_256_if split: if_splits)

lemma ring_count_push_full:
  "h < 256 \<Longrightarrow> t < 256 \<Longrightarrow> ring_count h t = 255 \<Longrightarrow>
   ring_count ((h + 1) mod 256) ((t + 1) mod 256) = 255"
  by (auto simp: ring_count_def mod_256_if split: if_splits)

lemma ring_count_pop:
  "h < 256 \<Longrightarrow> t < 256 \<Longrightarrow> h \<noteq> t \<Longrightarrow>
   ring_count ((h + 1) mod 256) t = ring_count h t - 1 \<and> 0 < ring_count h t"
  by (auto simp: ring_count_def mod_256_if split: if_splits)

lemma ring_count_empty: "h < 256 \<Longrightarrow> ring_count h h = 0"
  by (simp add: ring_count_def)

lemma ring_slot_last:
  "h < 256 \<Longrightarrow> t < 256 \<Longrightarrow> (h + ring_count h t) mod 256 = t"
  by (auto simp: ring_count_def mod_256_if split: if_splits)

lemma ring_slot_other:
  "h < 256 \<Longrightarrow> t < 256 \<Longrightarrow> k < ring_count h t \<Longrightarrow> (h + k) mod 256 \<noteq> t"
  by (auto simp: ring_count_def mod_256_if split: if_splits)

lemma ring_slot_shift:
  "h < 256 \<Longrightarrow> ((h + 1) mod 256 + k) mod 256 = (h + Suc k) mod 256"
  by (simp add: mod_simps)




lemma length_ring_list [simp]: "length (ring_list q h n) = n"
  by (simp add: ring_list_def)

lemma ring_list_0 [simp]: "ring_list q h 0 = []"
  by (simp add: ring_list_def)

lemma ring_list_Suc: "ring_list q h (Suc n) = ring_list q h n @ [q ((h + n) mod 256)]"
  by (simp add: ring_list_def)

lemma ring_list_Cons: "ring_list q h (Suc n) = q (h mod 256) # ring_list q ((h + 1) mod 256) n"
proof -
  have "[0..<Suc n] = 0 # map Suc [0..<n]"
    by (simp add: map_Suc_upt upt_conv_Cons)
  then show ?thesis
    by (simp add: ring_list_def comp_def mod_simps)
qed

lemma ring_list_upd:
  assumes "\<And>k. k < n \<Longrightarrow> (h + k) mod 256 \<noteq> t"
  shows "ring_list (q(t := e)) h n = ring_list q h n"
  unfolding ring_list_def using assms by (intro map_cong) auto

lemma ring_list_push:
  assumes h: "h < 256" and t: "t < 256" and nf: "ring_count h t \<noteq> 255"
  shows "ring_list (q(t := e)) h (ring_count h ((t + 1) mod 256)) = ring_list q h (ring_count h t) @ [e]"
proof -
  have "ring_list (q(t := e)) h (Suc (ring_count h t)) =
        ring_list (q(t := e)) h (ring_count h t) @ [(q(t := e)) ((h + ring_count h t) mod 256)]"
    by (rule ring_list_Suc)
  also have "ring_list (q(t := e)) h (ring_count h t) = ring_list q h (ring_count h t)"
    by (rule ring_list_upd) (rule ring_slot_other [OF h t])
  also have "(q(t := e)) ((h + ring_count h t) mod 256) = e"
    by (simp add: ring_slot_last [OF h t])
  finally have step: "ring_list (q(t := e)) h (Suc (ring_count h t)) =
      ring_list q h (ring_count h t) @ [e]" .
  have n: "ring_count h ((t + 1) mod 256) = Suc (ring_count h t)"
    using ring_count_push [OF h t nf] by simp
  show ?thesis unfolding n by (rule step)
qed

lemma ring_list_push_full:
  assumes h: "h < 256" and t: "t < 256" and full: "ring_count h t = 255"
  shows "ring_list (q(t := e)) ((h + 1) mod 256) (ring_count ((h + 1) mod 256) ((t + 1) mod 256)) =
         tl (ring_list q h (ring_count h t)) @ [e]"
proof -
  have s: "(255::nat) = Suc 254" by simp
  have "((h + 1) mod 256 + 254) mod 256 = (h + 1 + 254) mod 256"
    by (rule mod_add_left_eq)
  also have "h + 1 + 254 = h + 255" by simp
  finally have last: "((h + 1) mod 256 + 254) mod 256 = t"
    using ring_slot_last [OF h t] full by simp
  have other: "((h + 1) mod 256 + k) mod 256 \<noteq> t" if "k < 254" for k
  proof -
    have "(h + Suc k) mod 256 \<noteq> t"
      using ring_slot_other [OF h t, of "Suc k"] that full by simp
    moreover have "((h + 1) mod 256 + k) mod 256 = (h + 1 + k) mod 256"
      by (rule mod_add_left_eq)
    ultimately show ?thesis by simp
  qed
  have "ring_list (q(t := e)) ((h + 1) mod 256) (Suc 254) =
        ring_list (q(t := e)) ((h + 1) mod 256) 254 @ [(q(t := e)) (((h + 1) mod 256 + 254) mod 256)]"
    by (rule ring_list_Suc)
  also have "ring_list (q(t := e)) ((h + 1) mod 256) 254 = ring_list q ((h + 1) mod 256) 254"
    by (rule ring_list_upd) (rule other)
  also have "(q(t := e)) (((h + 1) mod 256 + 254) mod 256) = e"
    by (simp only: last fun_upd_same)
  also have "ring_list q ((h + 1) mod 256) 254 = tl (ring_list q h (Suc 254))"
    by (simp only: ring_list_Cons list.sel)
  finally have step: "ring_list (q(t := e)) ((h + 1) mod 256) (Suc 254) =
      tl (ring_list q h (Suc 254)) @ [e]" .
  show ?thesis
    unfolding ring_count_push_full [OF h t full] full s by (rule step)
qed

lemma queue_count_ring: "queue_count s = ring_count (event_queue_head s) (event_queue_tail s)"
  by (simp add: queue_count_def ring_count_def MAX_EVENT_QUEUE_SIZE_def)

lemma pending_events_ring:
  "pending_events s = ring_list (event_queue s) (event_queue_head s) (queue_count s)"
  by (simp add: pending_events_def ring_list_def MAX_EVENT_QUEUE_SIZE_def)

lemma length_pending_events [simp]: "length (pending_events s) = queue_count s"
  by (simp add: pending_events_def)

lemma handler_not_full:
  assumes "queue_wf s" "queue_count s \<noteq> 255"
  shows "client_event_handler now s ty msg d =
         s\<lparr> event_queue := (event_queue s)(event_queue_tail s := make_event now s ty msg d),
            event_queue_tail := (event_queue_tail s + 1) mod 256 \<rparr>"
  using assms ring_count_full_iff [of "event_queue_head s" "event_queue_tail s"]
  by (simp add: client_event_handler_def make_event_def queue_wf_def queue_count_ring
      MAX_EVENT_QUEUE_SIZE_def Let_def)

lemma handler_full:
  assumes "queue_wf s" "queue_count s = 255"
  shows "client_event_handler now s ty msg d =
         s\<lparr> event_queue_head := (event_queue_head s + 1) mod 256,
            event_queue := (event_queue s)(event_queue_tail s := make_event now s ty msg d),
            event_queue_tail := (event_queue_tail s + 1) mod 256 \<rparr>"
  using assms ring_count_full_iff [of "event_queue_head s" "event_queue_tail s"]
  by (simp add: client_event_handler_def make_event_def queue_wf_def queue_count_ring
      MAX_EVENT_QUEUE_SIZE_def Let_def)

lemma pending_handler_not_full:
  assumes wf: "queue_wf s" and nf: "queue_count s \<noteq> 255"
  shows "pending_events (client_event_handler now s ty msg d) =
         pending_events s @ [make_event now s ty msg d]"
proof -
  have h: "event_queue_head s < 256" and t: "event_queue_tail s < 256"
    using wf by (simp_all add: queue_wf_def MAX_EVENT_QUEUE_SIZE_def)
  have nf': "ring_count (event_queue_head s) (event_queue_tail s) \<noteq> 255"
    using nf by (simp add: queue_count_ring)
  show ?thesis
    using ring_list_push [OF h t nf', of "event_queue s" "make_event now s ty msg d"]
    by (simp add: handler_not_full [OF wf nf] pending_events_ring queue_count_ring)
qed

lemma pending_handler_full:
  assumes wf: "queue_wf s" and full: "queue_count s = 255"
  shows "pending_events (client_event_handler now s ty msg d) =
         tl (pending_events s) @ [make_event now s ty msg d]"
proof -
  have h: "event_queue_head s < 256" and t: "event_queue_tail s < 256"
    using wf by (simp_all add: queue_wf_def MAX_EVENT_QUEUE_SIZE_def)
  have full': "ring_count (event_queue_head s) (event_queue_tail s) = 255"
    using full by (simp add: queue_count_ring)
  show ?thesis
    using ring_list_push_full [OF h t full', of "event_queue s" "make_event now s ty msg d"]
    by (simp add: handler_full [OF wf full] pending_events_ring queue_count_ring)
qed

lemma pending_handler:
  assumes "queue_wf s"
  shows "pending_events (client_event_handler now s ty msg d) =
         (if queue_count s = 255 then tl (pending_events s) else pending_events s)
           @ [make_event now s ty msg d]"
  using assms by (simp add: pending_handler_full pending_handler_not_full)

lemma queue_wf_handler: "queue_wf s \<Longrightarrow> queue_wf (client_event_handler now s ty msg d)"
  by (simp add: queue_wf_def client_event_handler_def MAX_EVENT_QUEUE_SIZE_def Let_def)

declare find_session_from.simps [simp del]

declare find_free_slot_from.simps [simp del]


lemma queue_count_le: "queue_count s \<le> 255"
  using ring_count_less [of "event_queue_head s" "event_queue_tail s"]
  by (simp add: queue_count_ring)

lemma emit_fields [simp]:
  "session_id (emit s r) = session_id s"
  "state (emit s r) = state s"
  "is_active (emit s r) = is_active s"
  "thread_running (emit s r) = thread_running s"
  "is_connected (emit s r) = is_connected s"
  by (simp_all add: emit_def client_event_handler_def Let_def split: prod.splits)

lemma requested_event_emit [simp]: "requested_event (emit s r) = requested_event s"
  by (rule ext) (simp add: requested_event_def make_event_def split: prod.splits)

lemma queue_wf_emit: "queue_wf s \<Longrightarrow> queue_wf (emit s r)"
  by (simp add: emit_def queue_wf_handler split: prod.splits)

lemma pending_emit:
  "queue_wf s \<Longrightarrow> pending_events (emit s r) =
     (if queue_count s = 255 then tl (pending_events s) else pending_events s) @ [requested_event s r]"
  by (simp add: emit_def requested_event_def pending_handler split: prod.splits)

lemma queue_wf_emit_all: "queue_wf s \<Longrightarrow> queue_wf (emit_all s rs)"
  by (induction rs arbitrary: s) (simp_all add: queue_wf_emit)

lemma emit_all_fields [simp]:
  "session_id (emit_all s rs) = session_id s"
  "state (emit_all s rs) = state s"
  "is_active (emit_all s rs) = is_active s"
  by (induction rs arbitrary: s) simp_all


lemma queue_count_emit:
  assumes "queue_wf s"
  shows "queue_count (emit s r) = (if queue_count s = 255 then 255 else Suc (queue_count s))"
  using arg_cong [OF pending_emit [OF assms, of r], of length]
  by (simp split: if_splits)

lemma pending_emit_all:
  assumes "queue_wf s"
  shows "pending_events (emit_all s rs) =
         drop (queue_count s + length rs - 255) (pending_events s @ map (requested_event s) rs)"
  using assms
proof (induction rs arbitrary: s)
  case Nil
  then show ?case using queue_count_le [of s] by simp
next
  case (Cons r rs)
  let ?p = "pending_events s"
  let ?new = "requested_event s r # map (requested_event s) rs"
  have wf': "queue_wf (emit s r)" using Cons.prems by (rule queue_wf_emit)
  have IH: "pending_events (emit_all (emit s r) rs) =
        drop (queue_count (emit s r) + length rs - 255)
          (pending_events (emit s r) @ map (requested_event s) rs)"
    using Cons.IH [OF wf'] by simp
  show ?case
  proof (cases "queue_count s = 255")
    case True
    have "length ?p = 255" using True by simp
    then obtain e es where p: "?p = e # es" by (cases ?p) simp_all
    have c': "queue_count (emit s r) = 255"
      using True by (simp add: queue_count_emit [OF Cons.prems])
    have pe: "pending_events (emit s r) = es @ [requested_event s r]"
      using True p by (simp add: pending_emit [OF Cons.prems])
    have "pending_events (emit_all s (r # rs)) = drop (length rs) (es @ ?new)"
      unfolding emit_all.simps IH c' pe by simp
    also have "\<dots> = drop (Suc (length rs)) (?p @ ?new)"
      unfolding p by simp
    finally show ?thesis using True by simp
  next
    case False
    have c': "queue_count (emit s r) = Suc (queue_count s)"
      using False by (simp add: queue_count_emit [OF Cons.prems])
    have pe: "pending_events (emit s r) = ?p @ [requested_event s r]"
      using False by (simp add: pending_emit [OF Cons.prems])
    have "pending_events (emit_all s (r # rs)) =
          drop (Suc (queue_count s) + length rs - 255) (?p @ ?new)"
      unfolding emit_all.simps IH c' pe by simp
    then show ?thesis by simp
  qed
qed




lemma find_session_from_cong:
  assumes "\<And>j. j < MAX_CLIENT_SESSIONS \<Longrightarrow>
             is_active (tbl' j) = is_active (tbl j) \<and> session_id (tbl' j) = session_id (tbl j)"
  shows "find_session_from tbl' sid i = find_session_from tbl sid i"
  using assms
proof (induction tbl sid i rule: find_session_from.induct)
  case (1 tbl sid i)
  show ?case
  proof (cases "i < MAX_CLIENT_SESSIONS")
    case True
    show ?thesis
    proof (cases "is_active (tbl i) \<and> session_id (tbl i) = sid")
      case hit: True
      then show ?thesis
        using True "1.prems" [OF True]
        by (simp add: find_session_from.simps [of tbl' sid i] find_session_from.simps [of tbl sid i])
    next
      case miss: False
      have "find_session_from tbl' sid (i + 1) = find_session_from tbl sid (i + 1)"
        using "1.IH" [OF True miss] "1.prems" by blast
      then show ?thesis
        using True miss "1.prems" [OF True]
        by (auto simp: find_session_from.simps [of tbl' sid i] find_session_from.simps [of tbl sid i])
    qed
  next
    case False
    then show ?thesis
      by (simp add: find_session_from.simps [of tbl' sid i] find_session_from.simps [of tbl sid i])
  qed
qed

lemma find_session_cong:
  assumes "\<And>j. j < MAX_CLIENT_SESSIONS \<Longrightarrow>
             is_active (tbl' j) = is_active (tbl j) \<and> session_id (tbl' j) = session_id (tbl j)"
  shows "find_session tbl' sid = find_session tbl sid"
  unfolding find_session_def using assms by (rule find_session_from_cong)

lemma find_session_upd_same:
  assumes "is_active s' = is_active (tbl i)" "session_id s' = session_id (tbl i)"
  shows "find_session (tbl(i := s')) sid = find_session tbl sid"
  using assms by (intro find_session_cong) simp

lemma find_session_from_Some:
  "find_session_from tbl sid i = Some k \<Longrightarrow>
     i \<le> k \<and> k < MAX_CLIENT_SESSIONS \<and> is_active (tbl k) \<and> session_id (tbl k) = sid \<and>
     (\<forall>j. i \<le> j \<and> j < k \<longrightarrow> \<not> (is_active (tbl j) \<and> session_id (tbl j) = sid))"
proof (induction tbl sid i rule: find_session_from.induct)
  case (1 tbl sid i)
  show ?case
  proof (cases "i < MAX_CLIENT_SESSIONS")
    case True
    show ?thesis
    proof (cases "is_active (tbl i) \<and> session_id (tbl i) = sid")
      case hit: True
      then have "k = i"
        using "1.prems" True by (simp add: find_session_from.simps [of tbl sid i])
      then show ?thesis using hit True by auto
    next
      case miss: False
      have "find_session_from tbl sid (i + 1) = Some k"
        using "1.prems" True miss by (simp add: find_session_from.simps [of tbl sid i])
      from "1.IH" [OF True miss this]
      have IH: "i + 1 \<le> k" "k < MAX_CLIENT_SESSIONS" "is_active (tbl k)" "session_id (tbl k) = sid"
        "\<And>j. i + 1 \<le> j \<Longrightarrow> j < k \<Longrightarrow> \<not> (is_active (tbl j) \<and> session_id (tbl j) = sid)"
        by blast+
      have "\<not> (is_active (tbl j) \<and> session_id (tbl j) = sid)" if "i \<le> j" "j < k" for j
      proof (cases "j = i")
        case True
        then show ?thesis using miss by simp
      next
        case False
        then have "i + 1 \<le> j" using that by simp
        then show ?thesis using IH(5) that by blast
      qed
      then show ?thesis using IH(1-4) by auto
    qed
  next
    case False
    then show ?thesis
      using "1.prems" by (simp add: find_session_from.simps [of tbl sid i])
  qed
qed

lemma find_session_Some:
  "find_session tbl sid = Some k \<Longrightarrow>
     k < MAX_CLIENT_SESSIONS \<and> is_active (tbl k) \<and> session_id (tbl k) = sid"
  unfolding find_session_def by (drule find_session_from_Some) simp




lemma pending_events_empty_iff:
  assumes "queue_wf s"
  shows "pending_events s = [] \<longleftrightarrow> event_queue_head s = event_queue_tail s"
proof -
  have h: "event_queue_head s < 256" and t: "event_queue_tail s < 256"
    using assms by (simp_all add: queue_wf_def MAX_EVENT_QUEUE_SIZE_def)
  have "queue_count s = 0 \<longleftrightarrow> event_queue_head s = event_queue_tail s"
  proof (cases "event_queue_head s = event_queue_tail s")
    case True
    then show ?thesis using ring_count_empty [OF h] by (simp add: queue_count_ring)
  next
    case False
    then show ?thesis using ring_count_pop [OF h t False] by (simp add: queue_count_ring)
  qed
  then show ?thesis by (simp flip: length_0_conv)
qed

lemma pending_events_pop:
  assumes wf: "queue_wf s" and ne: "event_queue_head s \<noteq> event_queue_tail s"
  shows "pending_events s = event_queue s (event_queue_head s) # pending_events (pop_event s)"
proof -
  let ?h = "event_queue_head s" and ?t = "event_queue_tail s"
  have h: "?h < 256" and t: "?t < 256"
    using wf by (simp_all add: queue_wf_def MAX_EVENT_QUEUE_SIZE_def)
  obtain n where n: "ring_count ?h ?t = Suc n"
    using ring_count_pop [OF h t ne] by (cases "ring_count ?h ?t") auto
  have n': "ring_count ((?h + 1) mod 256) ?t = n"
    using ring_count_pop [OF h t ne] n by simp
  have "pending_events s = ring_list (event_queue s) ?h (Suc n)"
    by (simp add: pending_events_ring queue_count_ring n)
  also have "\<dots> = event_queue s (?h mod 256) # ring_list (event_queue s) ((?h + 1) mod 256) n"
    by (rule ring_list_Cons)
  also have "?h mod 256 = ?h" using h by simp
  also have "ring_list (event_queue s) ((?h + 1) mod 256) n = pending_events (pop_event s)"
    using n' by (simp add: pending_events_ring queue_count_ring pop_event_def MAX_EVENT_QUEUE_SIZE_def)
  finally show ?thesis .
qed

lemma queue_wf_pop: "queue_wf s \<Longrightarrow> queue_wf (pop_event s)"
  by (simp add: queue_wf_def pop_event_def MAX_EVENT_QUEUE_SIZE_def)

lemma get_next_event_Nil:
  assumes "find_session (g_sessions g) sid = Some i" "queue_wf (g_sessions g i)"
    "pending_events (g_sessions g i) = []"
  shows "ovpn_client_get_next_event g sid = (None, g)"
  using assms pending_events_empty_iff [OF assms(2)]
  by (simp add: ovpn_client_get_next_event_def)

lemma get_next_event_Cons:
  assumes "find_session (g_sessions g) sid = Some i" "queue_wf (g_sessions g i)"
    "pending_events (g_sessions g i) = e # es"
  shows "ovpn_client_get_next_event g sid =
           (Some e, g\<lparr> g_sessions := (g_sessions g)(i := pop_event (g_sessions g i)) \<rparr>)"
    and "pending_events (pop_event (g_sessions g i)) = es"
proof -
  have ne: "event_queue_head (g_sessions g i) \<noteq> event_queue_tail (g_sessions g i)"
    using pending_events_empty_iff [OF assms(2)] assms(3) by simp
  from pending_events_pop [OF assms(2) ne] assms(3)
  have e: "event_queue (g_sessions g i) (event_queue_head (g_sessions g i)) = e"
    and es: "pending_events (pop_event (g_sessions g i)) = es" by simp_all
  show "pending_events (pop_event (g_sessions g i)) = es" by (rule es)
  show "ovpn_client_get_next_event g sid =
           (Some e, g\<lparr> g_sessions := (g_sessions g)(i := pop_event (g_sessions g i)) \<rparr>)"
    using assms(1) ne e by (simp add: ovpn_client_get_next_event_def Let_def pop_event_def)
qed

lemma find_session_pop:
  "find_session ((tbl)(i := pop_event (tbl i))) sid = find_session tbl sid"
  by (rule find_session_upd_same) (simp_all add: pop_event_def)

lemma get_events_pending:
  assumes "find_session (g_sessions g) sid = Some i" "queue_wf (g_sessions g i)"
  shows "fst (get_events n g sid) = take n (pending_events (g_sessions g i))"
  using assms
proof (induction n arbitrary: g)
  case 0
  then show ?case by simp
next
  case (Suc n)
  show ?case
  proof (cases "pending_events (g_sessions g i)")
    case Nil
    then show ?thesis
      using get_next_event_Nil [OF Suc.prems] by simp
  next
    case (Cons e es)
    let ?g' = "g\<lparr> g_sessions := (g_sessions g)(i := pop_event (g_sessions g i)) \<rparr>"
    have f': "find_session (g_sessions ?g') sid = Some i"
      using Suc.prems(1) by (simp add: find_session_pop)
    have wf': "queue_wf (g_sessions ?g' i)"
      using Suc.prems(2) by (simp add: queue_wf_pop)
    have "fst (get_events n ?g' sid) = take n es"
      using Suc.IH [OF f' wf'] get_next_event_Cons(2) [OF Suc.prems Cons] by simp
    then show ?thesis
      using get_next_event_Cons(1) [OF Suc.prems Cons] Cons
      by (cases "get_events n ?g' sid") simp
  qed
qed






lemma find_session_one_session_registry:
  "find_session (g_sessions one_session_registry) 1 = Some 0"
  by (simp add: one_session_registry_def find_session_def find_session_from.simps [of _ _ 0]
      MAX_CLIENT_SESSIONS_def)

lemma queue_wf_one_session_registry: "queue_wf (g_sessions one_session_registry 0)"
  by (simp add: one_session_registry_def queue_wf_def zero_session_def MAX_EVENT_QUEUE_SIZE_def)

lemma queue_count_one_session_registry: "queue_count (g_sessions one_session_registry 0) = 0"
  by (simp add: one_session_registry_def queue_count_def zero_session_def MAX_EVENT_QUEUE_SIZE_def)

lemma find_session_emit_all:
  "find_session (tbl(i := emit_all (tbl i) rs)) sid = find_session tbl sid"
  by (rule find_session_upd_same) simp_all

lemma overflow_general:
  assumes f: "find_session (g_sessions g) sid = Some i"
    and wf: "queue_wf (g_sessions g i)"
    and len: "255 \<le> length rs"
  shows "pending_events (emit_all (g_sessions g i) rs) =
           drop (length rs - 255) (map (requested_event (g_sessions g i)) rs)"
    and "fst (get_events n (g\<lparr> g_sessions := (g_sessions g)(i := emit_all (g_sessions g i) rs) \<rparr>) sid) =
           take n (drop (length rs - 255) (map (requested_event (g_sessions g i)) rs))"
proof -
  let ?s = "g_sessions g i"
  have "queue_count ?s + length rs - 255 = length (pending_events ?s) + (length rs - 255)"
    using len by simp
  then show p: "pending_events (emit_all ?s rs) =
           drop (length rs - 255) (map (requested_event ?s) rs)"
    by (simp only: pending_emit_all [OF wf] drop_append) simp
  let ?g' = "g\<lparr> g_sessions := (g_sessions g)(i := emit_all ?s rs) \<rparr>"
  have f': "find_session (g_sessions ?g') sid = Some i"
    using f by (simp add: find_session_emit_all)
  have wf': "queue_wf (g_sessions ?g' i)"
    using wf by (simp add: queue_wf_emit_all)
  show "fst (get_events n ?g' sid) =
           take n (drop (length rs - 255) (map (requested_event ?s) rs))"
    using get_events_pending [OF f' wf', of n] p by simp
qed


lemma head_emit:
  assumes "queue_wf s"
  shows "event_queue_head (emit s r) =
         (if queue_count s = 255 then (event_queue_head s + 1) mod 256 else event_queue_head s)"
  using assms
  by (cases r) (simp add: emit_def handler_full handler_not_full)

lemma head_emit_all:
  assumes "queue_wf s"
  shows "event_queue_head (emit_all s rs) =
         (event_queue_head s + (queue_count s + length rs - 255)) mod 256"
  using assms
proof (induction rs arbitrary: s)
  case Nil
  then show ?case
    using queue_count_le [of s] by (simp add: queue_wf_def MAX_EVENT_QUEUE_SIZE_def)
next
  case (Cons r rs)
  have wf': "queue_wf (emit s r)" using Cons.prems by (rule queue_wf_emit)
  note IH = Cons.IH [OF wf']
  show ?case
  proof (cases "queue_count s = 255")
    case True
    have "event_queue_head (emit_all s (r # rs)) =
          ((event_queue_head s + 1) mod 256 + length rs) mod 256"
      using IH True by (simp add: head_emit [OF Cons.prems] queue_count_emit [OF Cons.prems])
    also have "\<dots> = (event_queue_head s + 1 + length rs) mod 256"
      by (rule mod_add_left_eq)
    finally show ?thesis using True by (simp add: add.assoc)
  next
    case False
    then show ?thesis
      using IH by (simp add: head_emit [OF Cons.prems] queue_count_emit [OF Cons.prems])
  qed
qed

text \<open>
  Claim C2 as stated (more than 256 events enqueued leave exactly 256 in the channel) fails:
  after 257 calls of the handler on an empty channel, draining returns 255 events.
\<close>

theorem event_overflow_counterexample:
  "length (fst (get_events 1000
      (one_session_registry\<lparr> g_sessions := (g_sessions one_session_registry)
         (0 := emit_all (g_sessions one_session_registry 0) (replicate 257 log_request)) \<rparr>) 1))
   \<noteq> MAX_EVENT_QUEUE_SIZE
   \<and> length (fst (get_events 1000
      (one_session_registry\<lparr> g_sessions := (g_sessions one_session_registry)
         (0 := emit_all (g_sessions one_session_registry 0) (replicate 257 log_request)) \<rparr>) 1))
   = 255"
  using overflow_general(2) [OF find_session_one_session_registry queue_wf_one_session_registry,
      of "replicate 257 log_request" 1000]
  by (simp add: MAX_EVENT_QUEUE_SIZE_def)

text \<open>
  Claim C2, amended: enqueuing more events than the channel has slots (256) leaves
  exactly 255 events, one less than the number of slots, in the channel; they are the 255
  most recent ones in the order they were enqueued; the head index has advanced by one
  (modulo 256) for every event dropped; and \<^verbatim>\<open>ovpn_client_get_next_event\<close>, called until
  it reports an empty channel, returns exactly these events, oldest first.
\<close>

theorem event_overflow_retains_most_recent:
  assumes "find_session (g_sessions g) sid = Some i"
    and "queue_wf (g_sessions g i)"
    and "MAX_EVENT_QUEUE_SIZE < length rs"
  shows "length (pending_events (emit_all (g_sessions g i) rs)) = MAX_EVENT_QUEUE_SIZE - 1
       \<and> pending_events (emit_all (g_sessions g i) rs) =
           drop (length rs - (MAX_EVENT_QUEUE_SIZE - 1)) (map (requested_event (g_sessions g i)) rs)
       \<and> event_queue_head (emit_all (g_sessions g i) rs) =
           (event_queue_head (g_sessions g i) +
              (queue_count (g_sessions g i) + length rs - (MAX_EVENT_QUEUE_SIZE - 1)))
           mod MAX_EVENT_QUEUE_SIZE
       \<and> fst (get_events MAX_EVENT_QUEUE_SIZE
              (g\<lparr> g_sessions := (g_sessions g)(i := emit_all (g_sessions g i) rs) \<rparr>) sid) =
           drop (length rs - (MAX_EVENT_QUEUE_SIZE - 1)) (map (requested_event (g_sessions g i)) rs)"
proof -
  have len: "255 \<le> length rs" using assms(3) by (simp add: MAX_EVENT_QUEUE_SIZE_def)
  note o = overflow_general [OF assms(1,2) len]
  have a: "pending_events (emit_all (g_sessions g i) rs) =
           drop (length rs - (MAX_EVENT_QUEUE_SIZE - 1)) (map (requested_event (g_sessions g i)) rs)"
    using o(1) by (simp add: MAX_EVENT_QUEUE_SIZE_def)
  have b: "length (pending_events (emit_all (g_sessions g i) rs)) = MAX_EVENT_QUEUE_SIZE - 1"
    unfolding a using len by (simp add: MAX_EVENT_QUEUE_SIZE_def)
  have c: "fst (get_events MAX_EVENT_QUEUE_SIZE
              (g\<lparr> g_sessions := (g_sessions g)(i := emit_all (g_sessions g i) rs) \<rparr>) sid) =
           drop (length rs - (MAX_EVENT_QUEUE_SIZE - 1)) (map (requested_event (g_sessions g i)) rs)"
    using o(2) [of MAX_EVENT_QUEUE_SIZE] len by (simp add: MAX_EVENT_QUEUE_SIZE_def)
  have d: "event_queue_head (emit_all (g_sessions g i) rs) =
           (event_queue_head (g_sessions g i) +
              (queue_count (g_sessions g i) + length rs - (MAX_EVENT_QUEUE_SIZE - 1)))
           mod MAX_EVENT_QUEUE_SIZE"
    using head_emit_all [OF assms(2), of rs] by (simp add: MAX_EVENT_QUEUE_SIZE_def)
  from a b c d show ?thesis by blast
qed

text \<open>The hypotheses hold for a session in slot 0 that receives 300 log events.\<close>

theorem event_overflow_retains_most_recent_witness:
  "find_session (g_sessions one_session_registry) 1 = Some 0
   \<and> queue_wf (g_sessions one_session_registry 0)
   \<and> MAX_EVENT_QUEUE_SIZE < length (replicate 300 log_request)
   \<and> length (fst (get_events MAX_EVENT_QUEUE_SIZE
        (one_session_registry\<lparr> g_sessions := (g_sessions one_session_registry)
           (0 := emit_all (g_sessions one_session_registry 0) (replicate 300 log_request)) \<rparr>) 1))
      = 255
   \<and> event_queue_head (emit_all (g_sessions one_session_registry 0) (replicate 300 log_request))
      = 45"
proof -
  have l: "MAX_EVENT_QUEUE_SIZE < length (replicate 300 log_request)"
    by (simp add: MAX_EVENT_QUEUE_SIZE_def)
  have h: "event_queue_head (g_sessions one_session_registry 0) = 0"
    by (simp add: one_session_registry_def zero_session_def)
  show ?thesis
    using event_overflow_retains_most_recent
      [OF find_session_one_session_registry queue_wf_one_session_registry l]
      find_session_one_session_registry queue_wf_one_session_registry l
    by (simp add: MAX_EVENT_QUEUE_SIZE_def queue_count_one_session_registry h)
qed

lemma handler_fields [simp]:
  "session_id (client_event_handler now s ty msg d) = session_id s"
  "config (client_event_handler now s ty msg d) = config s"
  "state (client_event_handler now s ty msg d) = state s"
  "stats (client_event_handler now s ty msg d) = stats s"
  "quality (client_event_handler now s ty msg d) = quality s"
  "worker_thread (client_event_handler now s ty msg d) = worker_thread s"
  "thread_running (client_event_handler now s ty msg d) = thread_running s"
  "is_active (client_event_handler now s ty msg d) = is_active s"
  "is_connected (client_event_handler now s ty msg d) = is_connected s"
  by (simp_all add: client_event_handler_def Let_def)

lemma find_free_slot_from_None:
  "find_free_slot_from tbl i = None \<longleftrightarrow> (\<forall>j. i \<le> j \<and> j < MAX_CLIENT_SESSIONS \<longrightarrow> is_active (tbl j))"
proof (induction tbl i rule: find_free_slot_from.induct)
  case (1 tbl i)
  show ?case
  proof (cases "i < MAX_CLIENT_SESSIONS")
    case True
    show ?thesis
    proof (cases "is_active (tbl i)")
      case act: True
      have "find_free_slot_from tbl i = find_free_slot_from tbl (i + 1)"
        using True act by (simp add: find_free_slot_from.simps [of tbl i])
      moreover have "(\<forall>j. i \<le> j \<and> j < MAX_CLIENT_SESSIONS \<longrightarrow> is_active (tbl j)) \<longleftrightarrow>
                     (\<forall>j. i + 1 \<le> j \<and> j < MAX_CLIENT_SESSIONS \<longrightarrow> is_active (tbl j))"
        using act by (metis Suc_eq_plus1 Suc_leI le_eq_less_or_eq Suc_leD)
      ultimately show ?thesis using "1.IH" True act by simp
    next
      case False
      then show ?thesis
        using True by (auto simp: find_free_slot_from.simps [of tbl i])
    qed
  next
    case False
    then show ?thesis by (auto simp: find_free_slot_from.simps [of tbl i])
  qed
qed

lemma find_free_slot_from_Some:
  "find_free_slot_from tbl i = Some k \<Longrightarrow>
     i \<le> k \<and> k < MAX_CLIENT_SESSIONS \<and> \<not> is_active (tbl k) \<and>
     (\<forall>j. i \<le> j \<and> j < k \<longrightarrow> is_active (tbl j))"
proof (induction tbl i rule: find_free_slot_from.induct)
  case (1 tbl i)
  show ?case
  proof (cases "i < MAX_CLIENT_SESSIONS")
    case True
    show ?thesis
    proof (cases "is_active (tbl i)")
      case act: True
      have "find_free_slot_from tbl (i + 1) = Some k"
        using "1.prems" True act by (simp add: find_free_slot_from.simps [of tbl i])
      from "1.IH" [OF True _ this] act
      have IH: "i + 1 \<le> k" "k < MAX_CLIENT_SESSIONS" "\<not> is_active (tbl k)"
        "\<And>j. i + 1 \<le> j \<Longrightarrow> j < k \<Longrightarrow> is_active (tbl j)"
        by auto
      have "is_active (tbl j)" if "i \<le> j" "j < k" for j
        using that act IH(4) [of j] by (cases "j = i") auto
      then show ?thesis using IH(1-3) by auto
    next
      case False
      then have "k = i"
        using "1.prems" True by (simp add: find_free_slot_from.simps [of tbl i])
      then show ?thesis using False True by auto
    qed
  next
    case False
    then show ?thesis
      using "1.prems" by (simp add: find_free_slot_from.simps [of tbl i])
  qed
qed

lemma find_free_slot_None:
  "find_free_slot tbl = None \<longleftrightarrow> (\<forall>j < MAX_CLIENT_SESSIONS. is_active (tbl j))"
  by (simp add: find_free_slot_def find_free_slot_from_None)

lemma find_free_slot_Some:
  "find_free_slot tbl = Some k \<Longrightarrow>
     k < MAX_CLIENT_SESSIONS \<and> \<not> is_active (tbl k) \<and> (\<forall>j < k. is_active (tbl j))"
  unfolding find_free_slot_def by (drule find_free_slot_from_Some) simp

lemma find_session_from_first:
  assumes "i \<le> k" "k < MAX_CLIENT_SESSIONS" "is_active (tbl k)" "session_id (tbl k) = sid"
    "\<And>j. i \<le> j \<Longrightarrow> j < k \<Longrightarrow> \<not> (is_active (tbl j) \<and> session_id (tbl j) = sid)"
  shows "find_session_from tbl sid i = Some k"
  using assms
proof (induction tbl sid i rule: find_session_from.induct)
  case (1 tbl sid i)
  have lt: "i < MAX_CLIENT_SESSIONS" using "1.prems"(1,2) by simp
  show ?case
  proof (cases "i = k")
    case True
    then show ?thesis
      using "1.prems" by (simp add: find_session_from.simps [of tbl sid k])
  next
    case False
    then have miss: "\<not> (is_active (tbl i) \<and> session_id (tbl i) = sid)"
      using "1.prems"(1) "1.prems"(5) [of i] by simp
    have "find_session_from tbl sid (i + 1) = Some k"
      using "1.prems" False by (intro "1.IH" [OF lt miss]) auto
    then show ?thesis
      using lt miss by (auto simp: find_session_from.simps [of tbl sid i])
  qed
qed

lemma find_session_first:
  assumes "k < MAX_CLIENT_SESSIONS" "is_active (tbl k)" "session_id (tbl k) = sid"
    "\<And>j. j < k \<Longrightarrow> \<not> (is_active (tbl j) \<and> session_id (tbl j) = sid)"
  shows "find_session tbl sid = Some k"
  unfolding find_session_def using assms by (intro find_session_from_first) auto

lemma find_session_from_None:
  "find_session_from tbl sid i = None \<longleftrightarrow>
     (\<forall>j. i \<le> j \<and> j < MAX_CLIENT_SESSIONS \<longrightarrow> \<not> (is_active (tbl j) \<and> session_id (tbl j) = sid))"
proof
  assume n: "find_session_from tbl sid i = None"
  show "\<forall>j. i \<le> j \<and> j < MAX_CLIENT_SESSIONS \<longrightarrow> \<not> (is_active (tbl j) \<and> session_id (tbl j) = sid)"
  proof (rule ccontr)
    assume "\<not> ?thesis"
    then have ex: "\<exists>j. i \<le> j \<and> j < MAX_CLIENT_SESSIONS \<and> is_active (tbl j) \<and> session_id (tbl j) = sid"
      by blast
    define k where "k = (LEAST j. i \<le> j \<and> j < MAX_CLIENT_SESSIONS \<and> is_active (tbl j) \<and> session_id (tbl j) = sid)"
    have k: "i \<le> k \<and> k < MAX_CLIENT_SESSIONS \<and> is_active (tbl k) \<and> session_id (tbl k) = sid"
      unfolding k_def using ex by (rule LeastI_ex)
    have least: "\<not> (is_active (tbl j) \<and> session_id (tbl j) = sid)" if "i \<le> j" "j < k" for j
    proof
      assume "is_active (tbl j) \<and> session_id (tbl j) = sid"
      then have "k \<le> j" unfolding k_def using that k by (intro Least_le) auto
      then show False using that by simp
    qed
    have "find_session_from tbl sid i = Some k"
      using k least by (intro find_session_from_first) auto
    then show False using n by simp
  qed
next
  assume a: "\<forall>j. i \<le> j \<and> j < MAX_CLIENT_SESSIONS \<longrightarrow> \<not> (is_active (tbl j) \<and> session_id (tbl j) = sid)"
  show "find_session_from tbl sid i = None"
  proof (cases "find_session_from tbl sid i")
    case None
    then show ?thesis .
  next
    case (Some k)
    from find_session_from_Some [OF this] a show ?thesis by blast
  qed
qed

lemma cleanup_fields [simp]:
  "session_id (client_worker_cleanup s) = session_id s"
  "is_active (client_worker_cleanup s) = is_active s"
  "thread_running (client_worker_cleanup s) = thread_running s"
  "is_connected (client_worker_cleanup s) = False"
  "state (client_worker_cleanup s) = CLIENT_STATE_DISCONNECTED"
  "config (client_worker_cleanup s) = config s"
  by (simp_all add: client_worker_cleanup_def)

lemma disconnect_idle:
  assumes "find_session (g_sessions g) sid = Some i"
    "\<not> thread_running (g_sessions g i)" "\<not> is_connected (g_sessions g i)"
  shows "ovpn_client_disconnect now g sid = (OVPN_ERROR_NOT_CONNECTED, g)"
  using assms by (simp add: ovpn_client_disconnect_def)

lemma disconnect_not_found:
  assumes "find_session (g_sessions g) sid = None"
  shows "ovpn_client_disconnect now g sid = (OVPN_ERROR_SESSION_NOT_FOUND, g)"
  using assms by (simp add: ovpn_client_disconnect_def)

lemma disconnect_busy:
  assumes "find_session (g_sessions g) sid = Some i"
    "thread_running (g_sessions g i) \<or> is_connected (g_sessions g i)"
  shows "fst (ovpn_client_disconnect now g sid) = OVPN_ERROR_SUCCESS"
    and "\<not> thread_running (g_sessions (snd (ovpn_client_disconnect now g sid)) i)"
    and "\<not> is_connected (g_sessions (snd (ovpn_client_disconnect now g sid)) i)"
    and "state (g_sessions (snd (ovpn_client_disconnect now g sid)) i) = CLIENT_STATE_DISCONNECTED"
    and "config (g_sessions (snd (ovpn_client_disconnect now g sid)) i) = config (g_sessions g i)"
    and "pthread_joins (snd (ovpn_client_disconnect now g sid)) =
           (if worker_thread (g_sessions g i) \<noteq> 0 then pthread_joins g + 1 else pthread_joins g)"
  using assms by (auto simp: ovpn_client_disconnect_def Let_def)

lemma disconnect_keys:
  "is_active (g_sessions (snd (ovpn_client_disconnect now g sid)) j) = is_active (g_sessions g j)"
  "session_id (g_sessions (snd (ovpn_client_disconnect now g sid)) j) = session_id (g_sessions g j)"
  "g_next_session_id (snd (ovpn_client_disconnect now g sid)) = g_next_session_id g"
  by (auto simp: ovpn_client_disconnect_def Let_def split: option.splits)

lemma disconnect_others:
  assumes "find_session (g_sessions g) sid = Some i" "j \<noteq> i"
  shows "g_sessions (snd (ovpn_client_disconnect now g sid)) j = g_sessions g j"
  using assms by (auto simp: ovpn_client_disconnect_def Let_def)

lemma find_session_disconnect:
  "find_session (g_sessions (snd (ovpn_client_disconnect now g sid))) sid' =
   find_session (g_sessions g) sid'"
  by (rule find_session_cong) (simp add: disconnect_keys)

text \<open>
  Claim C5: for a connected session, \<^verbatim>\<open>ovpn_client_disconnect\<close> returns
  \<^verbatim>\<open>OVPN_ERROR_SUCCESS\<close> and joins the worker at most once; a second call right after it
  returns \<^verbatim>\<open>OVPN_ERROR_NOT_CONNECTED\<close> and leaves the whole state as it was, the count of
  \<^verbatim>\<open>pthread_join\<close> calls included.
\<close>

theorem disconnect_twice:
  assumes "find_session (g_sessions g) sid = Some i"
    and "is_connected (g_sessions g i)"
  shows "fst (ovpn_client_disconnect now g sid) = OVPN_ERROR_SUCCESS
       \<and> pthread_joins (snd (ovpn_client_disconnect now g sid)) \<le> pthread_joins g + 1
       \<and> ovpn_client_disconnect now' (snd (ovpn_client_disconnect now g sid)) sid =
           (OVPN_ERROR_NOT_CONNECTED, snd (ovpn_client_disconnect now g sid))
       \<and> pthread_joins (snd (ovpn_client_disconnect now'
             (snd (ovpn_client_disconnect now g sid)) sid)) =
           pthread_joins (snd (ovpn_client_disconnect now g sid))"
proof -
  let ?g1 = "snd (ovpn_client_disconnect now g sid)"
  have busy: "thread_running (g_sessions g i) \<or> is_connected (g_sessions g i)"
    using assms(2) by simp
  have f1: "find_session (g_sessions ?g1) sid = Some i"
    using assms(1) by (simp add: find_session_disconnect)
  have second: "ovpn_client_disconnect now' ?g1 sid = (OVPN_ERROR_NOT_CONNECTED, ?g1)"
    using f1 disconnect_busy(2,3) [OF assms(1) busy] by (rule disconnect_idle)
  show ?thesis
    using disconnect_busy(1,6) [OF assms(1) busy] second by simp
qed

lemma filter_eq_upt: "filter (\<lambda>i. i = k) [0..<n] = (if k < n then [k] else [])"
  by (induction n) auto

lemma free_slots_single:
  assumes "k < MAX_CLIENT_SESSIONS"
    "\<And>j. j < MAX_CLIENT_SESSIONS \<Longrightarrow> is_active (tbl j) \<longleftrightarrow> j \<noteq> k"
  shows "free_slots tbl = [k]"
proof -
  have "filter (\<lambda>i. \<not> is_active (tbl i)) [0..<MAX_CLIENT_SESSIONS] =
        filter (\<lambda>i. i = k) [0..<MAX_CLIENT_SESSIONS]"
    using assms(2) by (intro filter_cong) auto
  then show ?thesis using assms(1) by (simp add: free_slots_def filter_eq_upt)
qed

lemma free_slots_Nil:
  "free_slots tbl = [] \<longleftrightarrow> (\<forall>j < MAX_CLIENT_SESSIONS. is_active (tbl j))"
  by (auto simp: free_slots_def filter_empty_conv)

lemma length_active_slots: "length (active_slots tbl) \<le> MAX_CLIENT_SESSIONS"
  using length_filter_le [of "\<lambda>i. is_active (tbl i)" "[0..<MAX_CLIENT_SESSIONS]"]
  by (simp add: active_slots_def)

lemma create_session_fails:
  "ovpn_client_create_session now g None cb ud = (0, g)"
  "ovpn_config cfg = None \<Longrightarrow> ovpn_client_create_session now g (Some cfg) cb ud = (0, g)"
  "\<forall>j < MAX_CLIENT_SESSIONS. is_active (g_sessions g j) \<Longrightarrow>
     ovpn_client_create_session now g cfg_ptr cb ud = (0, g)"
  by (auto simp: ovpn_client_create_session_def find_free_slot_None [symmetric]
      split: option.splits)

lemma new_session_fields [simp]:
  "session_id (new_session now sid cfg cb ud) = sid"
  "config (new_session now sid cfg cb ud) = cfg"
  "state (new_session now sid cfg cb ud) = CLIENT_STATE_INITIAL"
  "is_active (new_session now sid cfg cb ud)"
  "\<not> thread_running (new_session now sid cfg cb ud)"
  "\<not> is_connected (new_session now sid cfg cb ud)"
  "worker_thread (new_session now sid cfg cb ud) = 0"
  by (simp_all add: new_session_def zero_session_def)

lemma create_session_ok:
  assumes "ovpn_config cfg \<noteq> None" "find_free_slot (g_sessions g) = Some k"
  shows "ovpn_client_create_session now g (Some cfg) cb ud =
         (g_next_session_id g,
          g\<lparr> g_sessions := (g_sessions g)(k := new_session now (g_next_session_id g) cfg cb ud),
             g_next_session_id := g_next_session_id g + 1 \<rparr>)"
  using assms by (auto simp: ovpn_client_create_session_def new_session_def Let_def)

lemma destroy_session_found:
  assumes "find_session (g_sessions g) sid = Some k"
  shows "ovpn_client_destroy_session now g sid =
         (OVPN_ERROR_SUCCESS,
          (snd (ovpn_client_disconnect now g sid))
            \<lparr> g_sessions := (g_sessions (snd (ovpn_client_disconnect now g sid)))(k := zero_session) \<rparr>)"
  using assms by (simp add: ovpn_client_destroy_session_def find_session_disconnect Let_def)

lemma destroy_session_active:
  assumes "find_session (g_sessions g) sid = Some k"
  shows "is_active (g_sessions (snd (ovpn_client_destroy_session now g sid)) j) \<longleftrightarrow>
         j \<noteq> k \<and> is_active (g_sessions g j)"
  by (simp add: destroy_session_found [OF assms] disconnect_keys zero_session_def)

lemma destroy_session_counter:
  "g_next_session_id (snd (ovpn_client_destroy_session now g sid)) = g_next_session_id g"
  by (simp add: ovpn_client_destroy_session_def Let_def disconnect_keys split: option.splits)

text \<open>
  Claim C3: the registry has 64 slots, so at most 64 sessions are active. When every slot
  is occupied, \<^verbatim>\<open>ovpn_client_create_session\<close> returns 0 and changes nothing. Destroying
  one session of the full registry succeeds and leaves exactly one free slot, the one
  the session held; the next create call takes that slot, returns the value of the
  identifier counter (nonzero unless the counter is 0) and fills the registry again, so
  that a further create call returns 0.
\<close>

theorem registry_capacity:
  assumes full: "free_slots (g_sessions g) = []"
    and found: "find_session (g_sessions g) sid = Some k"
    and cfg: "ovpn_config cfg \<noteq> None"
  shows "length (active_slots (g_sessions g)) \<le> MAX_CLIENT_SESSIONS
       \<and> ovpn_client_create_session now1 g (Some cfg) cb ud = (0, g)
       \<and> fst (ovpn_client_destroy_session now2 g sid) = OVPN_ERROR_SUCCESS
       \<and> free_slots (g_sessions (snd (ovpn_client_destroy_session now2 g sid))) = [k]
       \<and> fst (ovpn_client_create_session now3 (snd (ovpn_client_destroy_session now2 g sid))
              (Some cfg) cb ud) = g_next_session_id g
       \<and> (g_next_session_id g \<noteq> 0 \<longrightarrow>
            fst (ovpn_client_create_session now3 (snd (ovpn_client_destroy_session now2 g sid))
              (Some cfg) cb ud) \<noteq> 0)
       \<and> free_slots (g_sessions (snd (ovpn_client_create_session now3
              (snd (ovpn_client_destroy_session now2 g sid)) (Some cfg) cb ud))) = []
       \<and> fst (ovpn_client_create_session now4
              (snd (ovpn_client_create_session now3
                 (snd (ovpn_client_destroy_session now2 g sid)) (Some cfg) cb ud))
              (Some cfg) cb ud) = 0"
proof -
  let ?g1 = "snd (ovpn_client_destroy_session now2 g sid)"
  let ?r2 = "ovpn_client_create_session now3 ?g1 (Some cfg) cb ud"
  have full': "\<forall>j < MAX_CLIENT_SESSIONS. is_active (g_sessions g j)"
    using full by (simp add: free_slots_Nil)
  have k: "k < MAX_CLIENT_SESSIONS" using find_session_Some [OF found] by simp
  have act1: "is_active (g_sessions ?g1 j) \<longleftrightarrow> j \<noteq> k" if "j < MAX_CLIENT_SESSIONS" for j
    using full' that by (simp add: destroy_session_active [OF found])
  have free1: "free_slots (g_sessions ?g1) = [k]"
    using k act1 by (rule free_slots_single)
  have slot: "find_free_slot (g_sessions ?g1) = Some k"
  proof (cases "find_free_slot (g_sessions ?g1)")
    case None
    then show ?thesis using act1 [OF k] k by (simp add: find_free_slot_None)
  next
    case (Some k')
    from find_free_slot_Some [OF this] act1 [of k'] show ?thesis using Some by simp
  qed
  note ok = create_session_ok [OF cfg slot, of now3 cb ud]
  have id2: "fst ?r2 = g_next_session_id g"
    by (simp add: ok destroy_session_counter)
  have full2: "\<forall>j < MAX_CLIENT_SESSIONS. is_active (g_sessions (snd ?r2) j)"
    using act1 by (simp add: ok)
  have free2: "free_slots (g_sessions (snd ?r2)) = []"
    using full2 by (simp add: free_slots_Nil)
  have third: "fst (ovpn_client_create_session now4 (snd ?r2) (Some cfg) cb ud) = 0"
    using create_session_fails(3) [OF full2] by simp
  show ?thesis
    using length_active_slots create_session_fails(3) [OF full']
      destroy_session_found [OF found] free1 id2 free2 third
    by simp
qed

lemma create_session_initial:
  assumes cfg: "ovpn_config cfg \<noteq> None"
    and free: "\<exists>j < MAX_CLIENT_SESSIONS. \<not> is_active (g_sessions g j)"
    and fresh: "\<forall>j < MAX_CLIENT_SESSIONS.
                  is_active (g_sessions g j) \<longrightarrow> session_id (g_sessions g j) \<noteq> g_next_session_id g"
  shows "fst (ovpn_client_create_session now g (Some cfg) cb ud) = g_next_session_id g"
    and "ovpn_client_get_state (snd (ovpn_client_create_session now g (Some cfg) cb ud))
           (fst (ovpn_client_create_session now g (Some cfg) cb ud)) = CLIENT_STATE_INITIAL"
proof -
  obtain k where slot: "find_free_slot (g_sessions g) = Some k"
    using free find_free_slot_None [of "g_sessions g"] by (cases "find_free_slot (g_sessions g)") auto
  note ok = create_session_ok [OF cfg slot, of now cb ud]
  note k = find_free_slot_Some [OF slot]
  let ?tbl = "(g_sessions g)(k := new_session now (g_next_session_id g) cfg cb ud)"
  have "find_session ?tbl (g_next_session_id g) = Some k"
  proof (rule find_session_first)
    show "k < MAX_CLIENT_SESSIONS" using k by simp
    show "is_active (?tbl k)" by simp
    show "session_id (?tbl k) = g_next_session_id g" by simp
    show "\<not> (is_active (?tbl j) \<and> session_id (?tbl j) = g_next_session_id g)" if "j < k" for j
      using that k fresh by auto
  qed
  then show "ovpn_client_get_state (snd (ovpn_client_create_session now g (Some cfg) cb ud))
           (fst (ovpn_client_create_session now g (Some cfg) cb ud)) = CLIENT_STATE_INITIAL"
    by (simp add: ok ovpn_client_get_state_def)
  show "fst (ovpn_client_create_session now g (Some cfg) cb ud) = g_next_session_id g"
    by (simp add: ok)
qed

lemma find_free_slot_start [simp]: "find_free_slot (\<lambda>_. zero_session) = Some 0"
  by (simp add: find_free_slot_def find_free_slot_from.simps [of _ 0] MAX_CLIENT_SESSIONS_def
      zero_session_def)

lemma create_then_destroy_start:
  "create_then_destroy valid_config (client_api_start\<lparr> g_next_session_id := c \<rparr>) =
   client_api_start\<lparr> g_next_session_id := c + 1 \<rparr>"
proof -
  let ?g = "client_api_start\<lparr> g_next_session_id := c \<rparr>"
  let ?s = "new_session 0 c valid_config 0 0"
  let ?g' = "?g\<lparr> g_sessions := (g_sessions ?g)(0 := ?s), g_next_session_id := c + 1 \<rparr>"
  have cfg: "ovpn_config valid_config \<noteq> None" by (simp add: valid_config_def)
  have slot: "find_free_slot (g_sessions ?g) = Some 0" by (simp add: client_api_start_def)
  have c: "ovpn_client_create_session 0 ?g (Some valid_config) 0 0 = (c, ?g')"
    using create_session_ok [OF cfg slot, of 0 0 0] by simp
  have f: "find_session (g_sessions ?g') c = Some 0"
    by (rule find_session_first) (simp_all add: MAX_CLIENT_SESSIONS_def)
  have d: "ovpn_client_disconnect 0 ?g' c = (OVPN_ERROR_NOT_CONNECTED, ?g')"
    using f by (rule disconnect_idle) simp_all
  have "snd (ovpn_client_destroy_session 0 ?g' c) = client_api_start\<lparr> g_next_session_id := c + 1 \<rparr>"
    unfolding destroy_session_found [OF f] d by (auto simp: client_api_start_def)
  then show ?thesis by (simp add: create_then_destroy_def c)
qed

lemma create_then_destroy_funpow:
  "(create_then_destroy valid_config ^^ n) client_api_start =
   client_api_start\<lparr> g_next_session_id := 1 + of_nat n \<rparr>"
proof (induction n)
  case 0
  show ?case by (simp add: client_api_start_def)
next
  case (Suc n)
  then show ?case by (simp add: create_then_destroy_start add.commute add.left_commute)
qed

lemma wrapped_registry_eq: "wrapped_registry = client_api_start\<lparr> g_next_session_id := 0 \<rparr>"
  by (simp add: wrapped_registry_def create_then_destroy_funpow)

text \<open>
  Claim C4 fails on the code once the 32-bit counter \<^verbatim>\<open>g_next_session_id\<close> has wrapped.
  \<open>wrapped_registry\<close> is the state after 4294967295 rounds of create and destroy from
  program start: every slot is free and the counter is 0. A create call with a valid
  configuration then allocates slot 0 and returns 0, the value documented as failure.
\<close>

theorem create_session_returns_zero_after_wrap:
  "find_free_slot (g_sessions wrapped_registry) = Some 0
   \<and> ovpn_config valid_config = Some ''client''
   \<and> fst (ovpn_client_create_session 0 wrapped_registry (Some valid_config) 0 0) = 0
   \<and> is_active (g_sessions
        (snd (ovpn_client_create_session 0 wrapped_registry (Some valid_config) 0 0)) 0)
   \<and> g_sessions (snd (ovpn_client_create_session 0 wrapped_registry (Some valid_config) 0 0))
        \<noteq> g_sessions wrapped_registry"
proof -
  have cfg: "ovpn_config valid_config \<noteq> None" by (simp add: valid_config_def)
  have slot: "find_free_slot (g_sessions wrapped_registry) = Some 0"
    by (simp add: wrapped_registry_eq client_api_start_def)
  note ok = create_session_ok [OF cfg slot, of 0 0 0]
  have a: "is_active (g_sessions
        (snd (ovpn_client_create_session 0 wrapped_registry (Some valid_config) 0 0)) 0)"
    by (simp add: ok)
  have b: "\<not> is_active (g_sessions wrapped_registry 0)"
    by (simp add: wrapped_registry_eq client_api_start_def zero_session_def)
  have "g_sessions (snd (ovpn_client_create_session 0 wrapped_registry (Some valid_config) 0 0))
        \<noteq> g_sessions wrapped_registry"
    using a b by metis
  moreover have "g_next_session_id wrapped_registry = 0"
    by (simp add: wrapped_registry_eq)
  then have "fst (ovpn_client_create_session 0 wrapped_registry (Some valid_config) 0 0) = 0"
    unfolding ok by simp
  moreover have "ovpn_config valid_config = Some ''client''"
    by (simp add: valid_config_def)
  ultimately show ?thesis
    using slot a by blast
qed

lemma connect_ok:
  assumes "find_session (g_sessions g) sid = Some i"
    "\<not> is_connected (g_sessions g i)" "\<not> thread_running (g_sessions g i)"
    "parse_ovpn_config (g_sessions g i) = OVPN_ERROR_SUCCESS"
  shows "ovpn_client_connect now (Some t) g sid =
         (OVPN_ERROR_SUCCESS,
          g\<lparr> g_sessions := (g_sessions g)
               (i := client_event_handler now
                       ((g_sessions g i)\<lparr> thread_running := True, worker_thread := t,
                                           state := CLIENT_STATE_CONNECTING \<rparr>)
                       CLIENT_EVENT_STATE_CHANGE (Some ''Connection initiated'') None) \<rparr>)"
  using assms by (simp add: ovpn_client_connect_def Let_def)

lemma parse_ovpn_config_cong:
  "config s' = config s \<Longrightarrow> parse_ovpn_config s' = parse_ovpn_config s"
  by (simp add: parse_ovpn_config_def)

lemma get_state_found:
  "find_session (g_sessions g) sid = Some i \<Longrightarrow> ovpn_client_get_state g sid = state (g_sessions g i)"
  by (simp add: ovpn_client_get_state_def)

text \<open>
  Claim C10: \<^verbatim>\<open>ovpn_client_pause\<close> is \<^verbatim>\<open>ovpn_client_disconnect\<close> and \<^verbatim>\<open>ovpn_client_resume\<close>
  is \<^verbatim>\<open>ovpn_client_connect\<close>, result and state alike. Pausing a session whose worker runs
  (whatever state it is in) leaves it in \<^verbatim>\<open>CLIENT_STATE_DISCONNECTED\<close>, and resuming it
  starts again from \<^verbatim>\<open>CLIENT_STATE_CONNECTING\<close>.
\<close>

theorem pause_is_disconnect_resume_is_connect:
  assumes "find_session (g_sessions g) sid = Some i"
    and "thread_running (g_sessions g i) \<or> is_connected (g_sessions g i)"
    and "parse_ovpn_config (g_sessions g i) = OVPN_ERROR_SUCCESS"
  shows "ovpn_client_pause now g sid = ovpn_client_disconnect now g sid
       \<and> ovpn_client_resume now' spawn g' sid' = ovpn_client_connect now' spawn g' sid'
       \<and> fst (ovpn_client_pause now g sid) = OVPN_ERROR_SUCCESS
       \<and> ovpn_client_get_state (snd (ovpn_client_pause now g sid)) sid = CLIENT_STATE_DISCONNECTED
       \<and> fst (ovpn_client_resume now' (Some t) (snd (ovpn_client_pause now g sid)) sid) =
           OVPN_ERROR_SUCCESS
       \<and> ovpn_client_get_state
           (snd (ovpn_client_resume now' (Some t) (snd (ovpn_client_pause now g sid)) sid)) sid =
           CLIENT_STATE_CONNECTING"
proof -
  let ?g1 = "snd (ovpn_client_disconnect now g sid)"
  note b = disconnect_busy [OF assms(1,2), of now]
  have f1: "find_session (g_sessions ?g1) sid = Some i"
    using assms(1) by (simp add: find_session_disconnect)
  have p1: "parse_ovpn_config (g_sessions ?g1 i) = OVPN_ERROR_SUCCESS"
    using assms(3) parse_ovpn_config_cong [OF b(5)] by simp
  note c = connect_ok [OF f1 b(3) b(2) p1, of now' t]
  have f2: "find_session (g_sessions (snd (ovpn_client_connect now' (Some t) ?g1 sid))) sid = Some i"
    unfolding c using f1 by (simp add: find_session_upd_same)
  have s2: "ovpn_client_get_state (snd (ovpn_client_connect now' (Some t) ?g1 sid)) sid =
            CLIENT_STATE_CONNECTING"
    unfolding get_state_found [OF f2] unfolding c by simp
  show ?thesis
    unfolding ovpn_client_pause_def ovpn_client_resume_def
    using b(1) b(4) s2 c by (simp add: get_state_found [OF f1])
qed

lemma full_registry_facts:
  "free_slots (g_sessions full_registry) = []"
  "find_session (g_sessions full_registry) 1 = Some 0"
  by (simp_all add: free_slots_Nil full_registry_def find_session_def
      find_session_from.simps [of _ _ 0] MAX_CLIENT_SESSIONS_def)

lemma connected_registry_facts:
  "find_session (g_sessions connected_registry) 1 = Some 0"
  "is_connected (g_sessions connected_registry 0)"
  "thread_running (g_sessions connected_registry 0)"
  "parse_ovpn_config (g_sessions connected_registry 0) = OVPN_ERROR_SUCCESS"
  by (simp_all add: connected_registry_def find_session_def find_session_from.simps [of _ _ 0]
      MAX_CLIENT_SESSIONS_def parse_ovpn_config_def valid_config_def)

text \<open>
  The hypotheses hold for a registry whose 64 slots hold the sessions 1 to 64.
\<close>

theorem registry_capacity_witness:
  "free_slots (g_sessions full_registry) = []
   \<and> find_session (g_sessions full_registry) 1 = Some 0
   \<and> ovpn_config valid_config \<noteq> None
   \<and> ovpn_client_create_session 0 full_registry (Some valid_config) 0 0 = (0, full_registry)
   \<and> free_slots (g_sessions (snd (ovpn_client_destroy_session 0 full_registry 1))) = [0]
   \<and> fst (ovpn_client_create_session 0 (snd (ovpn_client_destroy_session 0 full_registry 1))
        (Some valid_config) 0 0) = 65"
proof -
  have cfg: "ovpn_config valid_config \<noteq> None" by (simp add: valid_config_def)
  have c: "g_next_session_id full_registry = 65" by (simp add: full_registry_def)
  show ?thesis
    using registry_capacity [OF full_registry_facts cfg, of 0 0 0 0 0 0] full_registry_facts cfg
    by (simp add: c)
qed

text \<open>
  The hypotheses hold for a registry with one connected session.
\<close>

theorem disconnect_twice_witness:
  "find_session (g_sessions connected_registry) 1 = Some 0
   \<and> is_connected (g_sessions connected_registry 0)
   \<and> fst (ovpn_client_disconnect 5 connected_registry 1) = OVPN_ERROR_SUCCESS
   \<and> fst (ovpn_client_disconnect 6 (snd (ovpn_client_disconnect 5 connected_registry 1)) 1) =
       OVPN_ERROR_NOT_CONNECTED"
  using disconnect_twice [OF connected_registry_facts(1,2), of 5 6] connected_registry_facts(1,2)
  by simp

text \<open>
  A session paused in \<^verbatim>\<open>CLIENT_STATE_CONNECTED\<close> resumes in \<^verbatim>\<open>CLIENT_STATE_CONNECTING\<close>.
\<close>

theorem pause_is_disconnect_resume_is_connect_witness:
  "find_session (g_sessions connected_registry) 1 = Some 0
   \<and> (thread_running (g_sessions connected_registry 0) \<or> is_connected (g_sessions connected_registry 0))
   \<and> parse_ovpn_config (g_sessions connected_registry 0) = OVPN_ERROR_SUCCESS
   \<and> ovpn_client_get_state connected_registry 1 = CLIENT_STATE_CONNECTED
   \<and> ovpn_client_get_state
       (snd (ovpn_client_resume 6 (Some 8) (snd (ovpn_client_pause 5 connected_registry 1)) 1)) 1 =
       CLIENT_STATE_CONNECTING"
proof -
  have b: "thread_running (g_sessions connected_registry 0) \<or>
           is_connected (g_sessions connected_registry 0)"
    using connected_registry_facts(2) by simp
  have st: "ovpn_client_get_state connected_registry 1 = CLIENT_STATE_CONNECTED"
    by (simp add: get_state_found [OF connected_registry_facts(1)]) (simp add: connected_registry_def)
  show ?thesis
    using pause_is_disconnect_resume_is_connect
      [OF connected_registry_facts(1) b connected_registry_facts(4),
        where now = 5 and now' = 6 and t = 8 and spawn = None and g' = connected_registry
        and sid' = 1]
      connected_registry_facts(1,4) b st
    by blast
qed

lemma window_short: "length xs \<le> 255 \<Longrightarrow> window xs = xs"
  by (simp add: window_def)

lemma length_window: "length (window xs) = min 255 (length xs)"
  by (simp add: window_def)

lemma pending_handler_window:
  assumes wf: "queue_wf s" and p: "pending_events s = window xs"
  shows "pending_events (client_event_handler now s ty msg d) =
         window (xs @ [make_event now s ty msg d])"
proof (cases "queue_count s = 255")
  case True
  have "length (window xs) = 255" using p True by (metis length_pending_events)
  then have len: "255 \<le> length xs" by (simp add: length_window)
  have "pending_events (client_event_handler now s ty msg d) =
        tl (window xs) @ [make_event now s ty msg d]"
    using True p by (simp add: pending_handler [OF wf])
  also have "tl (window xs) = drop (Suc (length xs) - 255) xs"
  proof -
    have "Suc (length xs) - 255 = Suc (length xs - 255)" using len by simp
    then show ?thesis by (simp add: window_def drop_Suc tl_drop)
  qed
  finally show ?thesis using len by (simp add: window_def)
next
  case False
  have "length (window xs) = queue_count s" using p by (metis length_pending_events)
  moreover have "queue_count s < 255" using False queue_count_le [of s] by simp
  ultimately have len: "length xs < 255" by (simp add: length_window)
  have "pending_events (client_event_handler now s ty msg d) = xs @ [make_event now s ty msg d]"
    using False p len by (simp add: pending_handler [OF wf] window_def)
  then show ?thesis using len by (simp add: window_def)
qed

lemma queue_frame:
  assumes "event_queue s' = event_queue s" "event_queue_head s' = event_queue_head s"
    "event_queue_tail s' = event_queue_tail s"
  shows "pending_events s' = pending_events s" "queue_wf s' = queue_wf s"
    "queue_count s' = queue_count s"
  using assms by (simp_all add: pending_events_def queue_wf_def queue_count_def)

lemma handler_after_update:
  assumes wf: "queue_wf s" and p: "pending_events s = window xs"
    and frame: "event_queue s' = event_queue s" "event_queue_head s' = event_queue_head s"
      "event_queue_tail s' = event_queue_tail s"
  shows "queue_wf (client_event_handler now s' ty msg d)"
    and "pending_events (client_event_handler now s' ty msg d) =
         window (xs @ [make_event now s' ty msg d])"
proof -
  have wf': "queue_wf s'" using wf queue_frame(2) [OF frame] by simp
  have p': "pending_events s' = window xs" using p queue_frame(1) [OF frame] by simp
  show "queue_wf (client_event_handler now s' ty msg d)"
    using wf' by (rule queue_wf_handler)
  show "pending_events (client_event_handler now s' ty msg d) =
         window (xs @ [make_event now s' ty msg d])"
    using wf' p' by (rule pending_handler_window)
qed

lemma at_stage_transition:
  assumes a: "at_stage s sid j xs"
    and frame: "event_queue s' = event_queue s" "event_queue_head s' = event_queue_head s"
      "event_queue_tail s' = event_queue_tail s"
    and keep: "thread_running s' = thread_running s" "is_active s' = is_active s"
      "session_id s' = session_id s"
    and st: "state s' = forward_states ! m"
  shows "at_stage (client_event_handler now s' CLIENT_EVENT_STATE_CHANGE
                     (Some (forward_messages ! m)) None) sid m (xs @ [stage_event sid now m])"
proof -
  have wf: "queue_wf s" and p: "pending_events s = window xs"
    using a by (simp_all add: at_stage_def)
  have e: "make_event now s' CLIENT_EVENT_STATE_CHANGE (Some (forward_messages ! m)) None =
           stage_event sid now m"
    using a keep st by (simp add: make_event_def stage_event_def at_stage_def)
  show ?thesis
    using handler_after_update [OF wf p frame, of now CLIENT_EVENT_STATE_CHANGE
        "Some (forward_messages ! m)" None] a keep st
    by (simp add: at_stage_def e)
qed

lemma iteration_forward:
  assumes a: "at_stage s sid j xs" and j: "j < 5"
  shows "at_stage (client_worker_iteration tick now s) sid (Suc j)
           (xs @ [stage_event sid now (Suc j)])"
proof -
  consider "j = 0" | "j = 1" | "j = 2" | "j = 3" | "j = 4" using j by linarith
  then show ?thesis
  proof cases
    case 1
    then have st: "state s = CLIENT_STATE_CONNECTING"
      using a by (simp add: at_stage_def forward_states_def)
    have it: "client_worker_iteration tick now s =
          client_event_handler now (s\<lparr> state := CLIENT_STATE_AUTH \<rparr>)
            CLIENT_EVENT_STATE_CHANGE (Some (forward_messages ! 1)) None"
      using st by (simp add: client_worker_iteration_def forward_messages_def)
    have sj: "Suc j = 1" using 1 by simp
    show ?thesis unfolding it sj
      using at_stage_transition [OF a, of "s\<lparr> state := CLIENT_STATE_AUTH \<rparr>" 1 now]
      by (simp add: forward_states_def)
  next
    case 2
    then have st: "state s = CLIENT_STATE_AUTH"
      using a by (simp add: at_stage_def forward_states_def)
    have it: "client_worker_iteration tick now s =
          client_event_handler now (s\<lparr> state := CLIENT_STATE_GET_CONFIG \<rparr>)
            CLIENT_EVENT_STATE_CHANGE (Some (forward_messages ! 2)) None"
      using st by (simp add: client_worker_iteration_def forward_messages_def)
    have sj: "Suc j = 2" using 2 by simp
    show ?thesis unfolding it sj
      using at_stage_transition [OF a, of "s\<lparr> state := CLIENT_STATE_GET_CONFIG \<rparr>" 2 now]
      by (simp add: forward_states_def)
  next
    case 3
    then have st: "state s = CLIENT_STATE_GET_CONFIG"
      using a by (simp add: at_stage_def forward_states_def)
    have it: "client_worker_iteration tick now s =
          client_event_handler now (s\<lparr> state := CLIENT_STATE_ASSIGN_IP \<rparr>)
            CLIENT_EVENT_STATE_CHANGE (Some (forward_messages ! 3)) None"
      using st by (simp add: client_worker_iteration_def forward_messages_def)
    have sj: "Suc j = 3" using 3 by simp
    show ?thesis unfolding it sj
      using at_stage_transition [OF a, of "s\<lparr> state := CLIENT_STATE_ASSIGN_IP \<rparr>" 3 now]
      by (simp add: forward_states_def)
  next
    case 4
    then have st: "state s = CLIENT_STATE_ASSIGN_IP"
      using a by (simp add: at_stage_def forward_states_def)
    have it: "client_worker_iteration tick now s =
          client_event_handler now (s\<lparr> state := CLIENT_STATE_ADD_ROUTES \<rparr>)
            CLIENT_EVENT_STATE_CHANGE (Some (forward_messages ! 4)) None"
      using st by (simp add: client_worker_iteration_def forward_messages_def)
    have sj: "Suc j = 4" using 4 by simp
    show ?thesis unfolding it sj
      using at_stage_transition [OF a, of "s\<lparr> state := CLIENT_STATE_ADD_ROUTES \<rparr>" 4 now]
      by (simp add: forward_states_def)
  next
    case 5
    then have st: "state s = CLIENT_STATE_ADD_ROUTES"
      using a by (simp add: at_stage_def forward_states_def)
    let ?s' = "s\<lparr> state := CLIENT_STATE_CONNECTED, is_connected := True,
                   stats := (stats s)\<lparr> connected_since := now \<rparr> \<rparr>"
    have it: "client_worker_iteration tick now s =
          client_event_handler now ?s'
            CLIENT_EVENT_STATE_CHANGE (Some (forward_messages ! 5)) None"
      using st by (simp add: client_worker_iteration_def forward_messages_def)
    have sj: "Suc j = 5" using 5 by simp
    show ?thesis unfolding it sj
      using at_stage_transition [OF a, of ?s' 5 now]
      by (simp add: forward_states_def)
  qed
qed

lemma passes_forward:
  assumes "at_stage s sid j xs" "j + n \<le> 5"
  shows "at_stage (client_worker_passes n tick clock s) sid (j + n)
           (xs @ map (\<lambda>m. stage_event sid (clock m) (j + Suc m)) [0..<n])"
  using assms
proof (induction n arbitrary: s j xs clock)
  case 0
  then show ?case by simp
next
  case (Suc n)
  have run: "thread_running s" using Suc.prems(1) by (simp add: at_stage_def)
  have j: "j < 5" using Suc.prems(2) by simp
  note step = iteration_forward [OF Suc.prems(1) j, of tick "clock 0"]
  have le: "Suc j + n \<le> 5" using Suc.prems(2) by simp
  note IH = Suc.IH [OF step le, of "\<lambda>k. clock (Suc k)"]
  have "[0..<Suc n] = 0 # map Suc [0..<n]"
    by (simp add: map_Suc_upt upt_conv_Cons)
  then have "map (\<lambda>m. stage_event sid (clock m) (j + Suc m)) [0..<Suc n] =
        stage_event sid (clock 0) (Suc j) #
        map (\<lambda>m. stage_event sid (clock (Suc m)) (Suc j + Suc m)) [0..<n]"
    by (simp add: comp_def)
  then show ?case
    using IH run by simp
qed

lemma forward_event_simps:
  "forward_event sid now clock 0 = stage_event sid now 0"
  "forward_event sid now clock (Suc m) = stage_event sid (clock m) (Suc m)"
  by (simp_all add: forward_event_def stage_event_def)

lemma map_forward_event:
  "map (forward_event sid now clock) [0..<Suc k] =
   stage_event sid now 0 # map (\<lambda>m. stage_event sid (clock m) (Suc m)) [0..<k]"
proof -
  have "[0..<Suc k] = 0 # map Suc [0..<k]"
    by (simp add: map_Suc_upt upt_conv_Cons)
  then show ?thesis by (simp add: comp_def forward_event_simps)
qed

lemma connect_at_stage:
  assumes f: "find_session (g_sessions g) sid = Some i"
    and idle: "\<not> thread_running (g_sessions g i)" "\<not> is_connected (g_sessions g i)"
    and cfg: "parse_ovpn_config (g_sessions g i) = OVPN_ERROR_SUCCESS"
    and wf: "queue_wf (g_sessions g i)"
  shows "fst (ovpn_client_connect now (Some t) g sid) = OVPN_ERROR_SUCCESS"
    and "at_stage (g_sessions (snd (ovpn_client_connect now (Some t) g sid)) i) sid 0
           (pending_events (g_sessions g i) @ [stage_event sid now 0])"
    and "find_session (g_sessions (snd (ovpn_client_connect now (Some t) g sid))) sid = Some i"
proof -
  let ?s = "g_sessions g i"
  let ?s' = "?s\<lparr> thread_running := True, worker_thread := t, state := CLIENT_STATE_CONNECTING \<rparr>"
  note c = connect_ok [OF f idle(2) idle(1) cfg, of now t]
  show "fst (ovpn_client_connect now (Some t) g sid) = OVPN_ERROR_SUCCESS"
    by (simp add: c)
  show "find_session (g_sessions (snd (ovpn_client_connect now (Some t) g sid))) sid = Some i"
    unfolding c using f by (simp add: find_session_upd_same)
  have p: "pending_events ?s = window (pending_events ?s)"
    using queue_count_le [of ?s] by (simp add: window_short)
  have key: "is_active ?s" "session_id ?s = sid"
    using find_session_Some [OF f] by simp_all
  have e: "make_event now ?s' CLIENT_EVENT_STATE_CHANGE (Some ''Connection initiated'') None =
           stage_event sid now 0"
    using key by (simp add: make_event_def stage_event_def forward_states_def forward_messages_def)
  note h = handler_after_update [OF wf p, of ?s' now CLIENT_EVENT_STATE_CHANGE
      "Some ''Connection initiated''" None]
  show "at_stage (g_sessions (snd (ovpn_client_connect now (Some t) g sid)) i) sid 0
           (pending_events ?s @ [stage_event sid now 0])"
    unfolding c using h key by (simp add: at_stage_def e forward_states_def)
qed

text \<open>
  The schedule on which \<^verbatim>\<open>ovpn_client_connect\<close> returns before the first pass of the
  worker, in terms of the sequential functions: for a session in state Initial
  with no worker and a client-mode profile, connect succeeds and sets Connecting, and
  after \<open>k \<le> 5\<close> passes of the worker loop the state is the \<open>k\<close>-th of Connecting,
  Authenticating (\<^verbatim>\<open>AUTH\<close>), FetchingConfig (\<^verbatim>\<open>GET_CONFIG\<close>), AssigningAddress
  (\<^verbatim>\<open>ASSIGN_IP\<close>), AddingRoutes (\<^verbatim>\<open>ADD_ROUTES\<close>), Connected. Connect and each pass emit
  exactly one \<^verbatim>\<open>CLIENT_EVENT_STATE_CHANGE\<close> event carrying the new state, and draining the
  channel with \<^verbatim>\<open>ovpn_client_get_next_event\<close> returns the events that were waiting before,
  followed by these \<open>k + 1\<close> events in the order of emission (cut down to the newest 255
  when the channel overflows).
\<close>

lemma worker_forward_transitions:
  assumes "find_session (g_sessions g) sid = Some i"
    and "state (g_sessions g i) = CLIENT_STATE_INITIAL"
    and "\<not> thread_running (g_sessions g i)"
    and "\<not> is_connected (g_sessions g i)"
    and "parse_ovpn_config (g_sessions g i) = OVPN_ERROR_SUCCESS"
    and "queue_wf (g_sessions g i)"
    and "k \<le> 5"
  shows "fst (ovpn_client_connect now (Some t) g sid) = OVPN_ERROR_SUCCESS
       \<and> ovpn_client_get_state
           (run_worker k tick clock (snd (ovpn_client_connect now (Some t) g sid)) i) sid =
           forward_states ! k
       \<and> fst (get_events MAX_EVENT_QUEUE_SIZE
              (run_worker k tick clock (snd (ovpn_client_connect now (Some t) g sid)) i) sid) =
           drop (queue_count (g_sessions g i) + Suc k - 255)
             (pending_events (g_sessions g i) @ map (forward_event sid now clock) [0..<Suc k])"
proof -
  let ?g1 = "snd (ovpn_client_connect now (Some t) g sid)"
  let ?gk = "run_worker k tick clock ?g1 i"
  let ?xs = "pending_events (g_sessions g i) @ map (forward_event sid now clock) [0..<Suc k]"
  note c = connect_at_stage [OF assms(1,3,4,5,6), of now t]
  have "at_stage (client_worker_passes k tick clock (g_sessions ?g1 i)) sid (0 + k)
          ((pending_events (g_sessions g i) @ [stage_event sid now 0]) @
             map (\<lambda>m. stage_event sid (clock m) (0 + Suc m)) [0..<k])"
    using c(2) assms(7) by (intro passes_forward) simp_all
  then have st: "at_stage (g_sessions ?gk i) sid k ?xs"
    unfolding map_forward_event by (simp add: run_worker_def)
  have fk: "find_session (g_sessions ?gk) sid = Some i"
    using c(3) st by (simp add: run_worker_def find_session_upd_same at_stage_def
        find_session_Some [OF c(3)])
  have wf: "queue_wf (g_sessions ?gk i)" using st by (simp add: at_stage_def)
  have "fst (get_events MAX_EVENT_QUEUE_SIZE ?gk sid) =
        take MAX_EVENT_QUEUE_SIZE (window ?xs)"
    using get_events_pending [OF fk wf, of MAX_EVENT_QUEUE_SIZE] st by (simp add: at_stage_def)
  also have "\<dots> = window ?xs"
    by (simp add: window_def MAX_EVENT_QUEUE_SIZE_def)
  also have "\<dots> = drop (queue_count (g_sessions g i) + Suc k - 255) ?xs"
    by (simp add: window_def)
  finally have ev: "fst (get_events MAX_EVENT_QUEUE_SIZE ?gk sid) =
        drop (queue_count (g_sessions g i) + Suc k - 255) ?xs" .
  have "ovpn_client_get_state ?gk sid = forward_states ! k"
    using st by (simp add: get_state_found [OF fk] at_stage_def)
  then show ?thesis using c(1) ev by simp
qed

lemma new_session_queue:
  "queue_wf (new_session now sid cfg cb ud)"
  "queue_count (new_session now sid cfg cb ud) = 1"
  "pending_events (new_session now sid cfg cb ud) =
     [\<lparr> ev_session_id = sid, ev_type = CLIENT_EVENT_STATE_CHANGE, ev_timestamp = now,
        ev_state = CLIENT_STATE_INITIAL, ev_message = Some ''Session created'',
        ev_data = None \<rparr>]"
proof -
  let ?z = "zero_session\<lparr> session_id := sid, config := cfg, state := CLIENT_STATE_INITIAL,
          is_active := True, created_at := now, event_callback := cb, user_data := ud,
          event_queue_head := 0, event_queue_tail := 0 \<rparr>"
  have wf: "queue_wf ?z" by (simp add: queue_wf_def MAX_EVENT_QUEUE_SIZE_def)
  have c: "queue_count ?z = 0" by (simp add: queue_count_def MAX_EVENT_QUEUE_SIZE_def)
  have p: "pending_events ?z = []" using c by (simp flip: length_0_conv)
  show "queue_wf (new_session now sid cfg cb ud)"
    unfolding new_session_def using wf by (rule queue_wf_handler)
  have "pending_events (new_session now sid cfg cb ud) =
        [make_event now ?z CLIENT_EVENT_STATE_CHANGE (Some ''Session created'') None]"
    unfolding new_session_def using pending_handler [OF wf] c p by simp
  then show "pending_events (new_session now sid cfg cb ud) =
     [\<lparr> ev_session_id = sid, ev_type = CLIENT_EVENT_STATE_CHANGE, ev_timestamp = now,
        ev_state = CLIENT_STATE_INITIAL, ev_message = Some ''Session created'',
        ev_data = None \<rparr>]"
    by (simp add: make_event_def)
  then show "queue_count (new_session now sid cfg cb ud) = 1"
    by (metis length_pending_events length_Cons list.size(3) One_nat_def)
qed

lemma created_registry_eq:
  "created_registry =
     client_api_start\<lparr> g_sessions := (g_sessions client_api_start)
        (0 := new_session 100 1 valid_config 0 0), g_next_session_id := 2 \<rparr>"
proof -
  have cfg: "ovpn_config valid_config \<noteq> None" by (simp add: valid_config_def)
  have slot: "find_free_slot (g_sessions client_api_start) = Some 0"
    by (simp add: client_api_start_def)
  show ?thesis
    unfolding created_registry_def create_session_ok [OF cfg slot]
    by (simp add: client_api_start_def)
qed

lemma created_registry_facts:
  "find_session (g_sessions created_registry) 1 = Some 0"
  "state (g_sessions created_registry 0) = CLIENT_STATE_INITIAL"
  "\<not> thread_running (g_sessions created_registry 0)"
  "\<not> is_connected (g_sessions created_registry 0)"
  "parse_ovpn_config (g_sessions created_registry 0) = OVPN_ERROR_SUCCESS"
  "queue_wf (g_sessions created_registry 0)"
  "queue_count (g_sessions created_registry 0) = 1"
  "pending_events (g_sessions created_registry 0) =
     [\<lparr> ev_session_id = 1, ev_type = CLIENT_EVENT_STATE_CHANGE, ev_timestamp = 100,
        ev_state = CLIENT_STATE_INITIAL, ev_message = Some ''Session created'',
        ev_data = None \<rparr>]"
  unfolding created_registry_eq
  by (simp_all add: find_session_def find_session_from.simps [of _ _ 0] MAX_CLIENT_SESSIONS_def
      parse_ovpn_config_def valid_config_def new_session_queue)

text \<open>
  A session created by \<^verbatim>\<open>ovpn_client_create_session\<close> at program start, connected and run
  for five passes: the drained events, in order.
\<close>

lemma worker_forward_transitions_witness:
  "find_session (g_sessions created_registry) 1 = Some 0
   \<and> state (g_sessions created_registry 0) = CLIENT_STATE_INITIAL
   \<and> \<not> thread_running (g_sessions created_registry 0)
   \<and> \<not> is_connected (g_sessions created_registry 0)
   \<and> parse_ovpn_config (g_sessions created_registry 0) = OVPN_ERROR_SUCCESS
   \<and> queue_wf (g_sessions created_registry 0)
   \<and> (5::nat) \<le> 5
   \<and> ovpn_client_get_state
        (run_worker 5 (\<lambda>now s. s) (\<lambda>k. 102 + int k)
           (snd (ovpn_client_connect 101 (Some 7) created_registry 1)) 0) 1 =
       CLIENT_STATE_CONNECTED
   \<and> map (\<lambda>e. (ev_state e, ev_type e, ev_message e))
        (fst (get_events MAX_EVENT_QUEUE_SIZE
           (run_worker 5 (\<lambda>now s. s) (\<lambda>k. 102 + int k)
              (snd (ovpn_client_connect 101 (Some 7) created_registry 1)) 0) 1)) =
       [(CLIENT_STATE_INITIAL, CLIENT_EVENT_STATE_CHANGE, Some ''Session created''),
        (CLIENT_STATE_CONNECTING, CLIENT_EVENT_STATE_CHANGE, Some ''Connection initiated''),
        (CLIENT_STATE_AUTH, CLIENT_EVENT_STATE_CHANGE, Some ''Authenticating''),
        (CLIENT_STATE_GET_CONFIG, CLIENT_EVENT_STATE_CHANGE, Some ''Getting configuration''),
        (CLIENT_STATE_ASSIGN_IP, CLIENT_EVENT_STATE_CHANGE, Some ''Assigning IP''),
        (CLIENT_STATE_ADD_ROUTES, CLIENT_EVENT_STATE_CHANGE, Some ''Adding routes''),
        (CLIENT_STATE_CONNECTED, CLIENT_EVENT_STATE_CHANGE, Some ''Connected'')]"
proof -
  have k: "(5::nat) \<le> 5" by simp
  have u: "[0..<6] = [0, 1, 2, 3, 4, 5::nat]" by code_simp
  show ?thesis
    using worker_forward_transitions [OF created_registry_facts(1-6) k,
        of 101 7 "\<lambda>now s. s" "\<lambda>k. 102 + int k"] created_registry_facts(1-6)
    by (simp add: created_registry_facts(7,8) u forward_event_def forward_states_def
        forward_messages_def)
qed

section \<open>Lemmas: connect and the worker on every schedule\<close>

text \<open>
The fields after a logged write and a logged handler call.
\<close>

lemma write_state_fields [simp]:
  "the_session (write_state st c) = (the_session c)\<lparr> state := st \<rparr>"
  "state_writes (write_state st c) = state_writes c @ [st]"
  "handler_calls (write_state st c) = handler_calls c"
  "caller_at (write_state st c) = caller_at c"
  "worker_at (write_state st c) = worker_at c"
  "housekeeping_passes (write_state st c) = housekeeping_passes c"
  "steps_taken (write_state st c) = steps_taken c"
  by (simp_all add: write_state_def)

lemma call_handler_fields [simp]:
  "the_session (call_handler now ty msg c) =
     client_event_handler now (the_session c) ty (Some msg) None"
  "state_writes (call_handler now ty msg c) = state_writes c"
  "handler_calls (call_handler now ty msg c) =
     handler_calls c @ [make_event now (the_session c) ty (Some msg) None]"
  "caller_at (call_handler now ty msg c) = caller_at c"
  "worker_at (call_handler now ty msg c) = worker_at c"
  "housekeeping_passes (call_handler now ty msg c) = housekeeping_passes c"
  "steps_taken (call_handler now ty msg c) = steps_taken c"
  by (simp_all add: call_handler_def)

lemma make_event_fields [simp]:
  "ev_type (make_event now s ty msg d) = ty"
  "ev_state (make_event now s ty msg d) = state s"
  "ev_message (make_event now s ty msg d) = msg"
  "ev_session_id (make_event now s ty msg d) = session_id s"
  by (simp_all add: make_event_def)

lemma queue_state_update [simp]:
  "pending_events (s\<lparr> state := st \<rparr>) = pending_events s"
  "queue_wf (s\<lparr> state := st \<rparr>) = queue_wf s"
  "pending_events (s\<lparr> is_connected := b \<rparr>) = pending_events s"
  "queue_wf (s\<lparr> is_connected := b \<rparr>) = queue_wf s"
  "pending_events (s\<lparr> stats := x \<rparr>) = pending_events s"
  "queue_wf (s\<lparr> stats := x \<rparr>) = queue_wf s"
  by (simp_all add: pending_events_def queue_wf_def queue_count_def)

lemma forward_lengths [simp]:
  "length forward_states = 6" "length forward_messages = 6" "length transition_events = 6"
  by (simp_all add: forward_states_def forward_messages_def transition_events_def)













lemma forward_run_steps_taken [simp]:
  "forward_run sid xs (c\<lparr> steps_taken := n \<rparr>) = forward_run sid xs c"
  by (simp add: forward_run_def)



lemma run_append:
  "run tick clock (a @ b) c = run tick clock b (run tick clock a c)"
  by (induction a arbitrary: c) simp_all





text \<open>
  \<^verbatim>\<open>ovpn_client_connect\<close> is the run of its parts with no step of the worker in between.
\<close>

lemma connect_in_steps:
  "ovpn_client_connect now spawn g sid =
     (case connect_begin spawn g sid of
        (Inl code, g') \<Rightarrow> (code, g')
      | (Inr i, g') \<Rightarrow>
          (OVPN_ERROR_SUCCESS,
           registry_after g' i (connect_step now (connect_step now (spawned (g_sessions g' i))))))"
  by (simp add: ovpn_client_connect_def connect_begin_def registry_after_def connect_step_def
      spawned_def write_state_def call_handler_def Let_def
      split: option.splits)







text \<open>
  \<^verbatim>\<open>client_worker_iteration\<close> is one pass of the worker's steps with no step of the caller
  in between, at one clock value.
\<close>

lemma worker_pass_in_steps:
  assumes "thread_running (the_session c)" "worker_at c = WORKER_LOOP_TEST"
  shows "the_session (run tick (\<lambda>n. now) (replicate (pass_steps (the_session c)) WORKER) c) =
           client_worker_iteration tick now (the_session c)
       \<and> worker_at (run tick (\<lambda>n. now) (replicate (pass_steps (the_session c)) WORKER) c) =
           WORKER_LOOP_TEST"
  using assms
  by (cases "state (the_session c)")
    (simp_all add: pass_steps_def numeral_eq_Suc step_def worker_step_def worker_switch_def
      client_worker_iteration_def write_state_def call_handler_def Let_def)

lemma worker_thread_stopped:
  "\<not> thread_running s \<Longrightarrow>
     client_worker_thread fuel tick clock s = Some (client_worker_cleanup s)"
  by (cases fuel) (simp_all add: client_worker_thread_def)

declare ip_in_use_from.simps [simp del]

declare alloc_scan.simps [simp del]

declare duplicate_cn_from.simps [simp del]

declare find_client_from.simps [simp del]

lemma duplicate_cn_from_iff:
  "duplicate_cn_from cl count cn i \<longleftrightarrow>
     (\<exists>j. i \<le> j \<and> j < count \<and> common_name (cl j) = cn \<and> \<not> is_revoked (cl j))"
proof (induction cl count cn i rule: duplicate_cn_from.induct)
  case (1 cl count cn i)
  show ?case
  proof (cases "i < count")
    case True
    show ?thesis
    proof (cases "common_name (cl i) = cn \<and> \<not> is_revoked (cl i)")
      case hit: True
      then have "duplicate_cn_from cl count cn i"
        using True by (simp add: duplicate_cn_from.simps [of cl count cn i])
      then show ?thesis using hit True by auto
    next
      case miss: False
      have "duplicate_cn_from cl count cn i = duplicate_cn_from cl count cn (i + 1)"
        using True miss by (auto simp: duplicate_cn_from.simps [of cl count cn i])
      also have "\<dots> \<longleftrightarrow>
          (\<exists>j. i + 1 \<le> j \<and> j < count \<and> common_name (cl j) = cn \<and> \<not> is_revoked (cl j))"
        using "1.IH" [OF True miss] .
      also have "\<dots> \<longleftrightarrow>
          (\<exists>j. i \<le> j \<and> j < count \<and> common_name (cl j) = cn \<and> \<not> is_revoked (cl j))"
      proof
        assume "\<exists>j. i + 1 \<le> j \<and> j < count \<and> common_name (cl j) = cn \<and> \<not> is_revoked (cl j)"
        then obtain j where "i + 1 \<le> j" "j < count" "common_name (cl j) = cn" "\<not> is_revoked (cl j)"
          by blast
        then have "i \<le> j \<and> j < count \<and> common_name (cl j) = cn \<and> \<not> is_revoked (cl j)"
          by simp
        then show "\<exists>j. i \<le> j \<and> j < count \<and> common_name (cl j) = cn \<and> \<not> is_revoked (cl j)" ..
      next
        assume "\<exists>j. i \<le> j \<and> j < count \<and> common_name (cl j) = cn \<and> \<not> is_revoked (cl j)"
        then obtain j where j: "i \<le> j" "j < count" "common_name (cl j) = cn" "\<not> is_revoked (cl j)"
          by blast
        then have "j \<noteq> i" using miss by auto
        then have "i + 1 \<le> j" using j(1) by simp
        then show "\<exists>j. i + 1 \<le> j \<and> j < count \<and> common_name (cl j) = cn \<and> \<not> is_revoked (cl j)"
          using j by blast
      qed
      finally show ?thesis .
    qed
  next
    case False
    then show ?thesis by (simp add: duplicate_cn_from.simps [of cl count cn i])
  qed
qed

lemma ip_in_use_from_iff:
  "ip_in_use_from cl count ip i \<longleftrightarrow>
     (\<exists>j. i \<le> j \<and> j < count \<and> has_static_ip (cl j) \<and> static_ip (cl j) = ip)"
proof (induction cl count ip i rule: ip_in_use_from.induct)
  case (1 cl count ip i)
  show ?case
  proof (cases "i < count")
    case True
    show ?thesis
    proof (cases "has_static_ip (cl i) \<and> static_ip (cl i) = ip")
      case hit: True
      then have "ip_in_use_from cl count ip i"
        using True by (simp add: ip_in_use_from.simps [of cl count ip i])
      then show ?thesis using hit True by auto
    next
      case miss: False
      have "ip_in_use_from cl count ip i = ip_in_use_from cl count ip (i + 1)"
        using True miss by (auto simp: ip_in_use_from.simps [of cl count ip i])
      also have "\<dots> \<longleftrightarrow>
          (\<exists>j. i + 1 \<le> j \<and> j < count \<and> has_static_ip (cl j) \<and> static_ip (cl j) = ip)"
        using "1.IH" [OF True miss] .
      also have "\<dots> \<longleftrightarrow>
          (\<exists>j. i \<le> j \<and> j < count \<and> has_static_ip (cl j) \<and> static_ip (cl j) = ip)"
      proof
        assume "\<exists>j. i + 1 \<le> j \<and> j < count \<and> has_static_ip (cl j) \<and> static_ip (cl j) = ip"
        then obtain j where "i + 1 \<le> j" "j < count" "has_static_ip (cl j)" "static_ip (cl j) = ip"
          by blast
        then have "i \<le> j \<and> j < count \<and> has_static_ip (cl j) \<and> static_ip (cl j) = ip"
          by simp
        then show "\<exists>j. i \<le> j \<and> j < count \<and> has_static_ip (cl j) \<and> static_ip (cl j) = ip" ..
      next
        assume "\<exists>j. i \<le> j \<and> j < count \<and> has_static_ip (cl j) \<and> static_ip (cl j) = ip"
        then obtain j where j: "i \<le> j" "j < count" "has_static_ip (cl j)" "static_ip (cl j) = ip"
          by blast
        then have "j \<noteq> i" using miss by auto
        then have "i + 1 \<le> j" using j(1) by simp
        then show "\<exists>j. i + 1 \<le> j \<and> j < count \<and> has_static_ip (cl j) \<and> static_ip (cl j) = ip"
          using j by blast
      qed
      finally show ?thesis .
    qed
  next
    case False
    then show ?thesis by (simp add: ip_in_use_from.simps [of cl count ip i])
  qed
qed

lemma find_client_from_first:
  assumes "i \<le> k" "k < count" "client_id (cl k) = cid"
    "\<And>j. i \<le> j \<Longrightarrow> j < k \<Longrightarrow> client_id (cl j) \<noteq> cid"
  shows "find_client_from cl count cid i = Some k"
  using assms
proof (induction cl count cid i rule: find_client_from.induct)
  case (1 cl count cid i)
  have lt: "i < count" using "1.prems"(1,2) by simp
  show ?case
  proof (cases "i = k")
    case True
    then show ?thesis
      using "1.prems" by (simp add: find_client_from.simps [of cl count cid k])
  next
    case False
    then have miss: "client_id (cl i) \<noteq> cid"
      using "1.prems"(1) "1.prems"(4) [of i] by simp
    have "find_client_from cl count cid (i + 1) = Some k"
      using "1.prems" False by (intro "1.IH" [OF lt miss]) auto
    then show ?thesis
      using lt miss by (simp add: find_client_from.simps [of cl count cid i])
  qed
qed

lemma find_client_from_Some:
  "find_client_from cl count cid i = Some k \<Longrightarrow> i \<le> k \<and> k < count \<and> client_id (cl k) = cid"
proof (induction cl count cid i rule: find_client_from.induct)
  case (1 cl count cid i)
  show ?case
  proof (cases "i < count")
    case True
    show ?thesis
    proof (cases "client_id (cl i) = cid")
      case hit: True
      then have "k = i"
        using "1.prems" True by (simp add: find_client_from.simps [of cl count cid i])
      then show ?thesis using hit True by auto
    next
      case miss: False
      have "find_client_from cl count cid (i + 1) = Some k"
        using "1.prems" True miss by (simp add: find_client_from.simps [of cl count cid i])
      from "1.IH" [OF True miss this] show ?thesis by simp
    qed
  next
    case False
    then show ?thesis
      using "1.prems" by (simp add: find_client_from.simps [of cl count cid i])
  qed
qed

lemma alloc_scan_first_fit:
  assumes "i \<le> k" "k < limit"
    "\<not> ip_in_use_from cl count (network + of_nat k) 0"
    "\<And>j. i \<le> j \<Longrightarrow> j < k \<Longrightarrow> ip_in_use_from cl count (network + of_nat j) 0"
  shows "alloc_scan cl count network limit i = network + of_nat k"
  using assms
proof (induction cl count network limit i rule: alloc_scan.induct)
  case (1 cl count network limit i)
  have lt: "i < limit" using "1.prems"(1,2) by simp
  show ?case
  proof (cases "i = k")
    case True
    then show ?thesis
      using "1.prems" by (simp add: alloc_scan.simps [of cl count network limit k])
  next
    case False
    then have used: "ip_in_use_from cl count (network + of_nat i) 0"
      using "1.prems"(1) "1.prems"(4) [of i] by simp
    have "alloc_scan cl count network limit (i + 1) = network + of_nat k"
      using "1.prems" False by (intro "1.IH" [OF lt refl used]) auto
    then show ?thesis
      using lt used by (simp add: alloc_scan.simps [of cl count network limit i])
  qed
qed

lemma alloc_scan_exhausted:
  assumes "\<And>j. i \<le> j \<Longrightarrow> j < limit \<Longrightarrow> ip_in_use_from cl count (network + of_nat j) 0"
  shows "alloc_scan cl count network limit i = 0"
  using assms
proof (induction cl count network limit i rule: alloc_scan.induct)
  case (1 cl count network limit i)
  show ?case
  proof (cases "i < limit")
    case True
    have used: "ip_in_use_from cl count (network + of_nat i) 0"
      using "1.prems" [of i] True by simp
    have "alloc_scan cl count network limit (i + 1) = 0"
      using "1.prems" by (intro "1.IH" [OF True refl used]) auto
    then show ?thesis
      using True used by (simp add: alloc_scan.simps [of cl count network limit i])
  next
    case False
    then show ?thesis by (simp add: alloc_scan.simps [of cl count network limit i])
  qed
qed

lemma ip_in_use_from_cong:
  assumes "\<And>j. j < count \<Longrightarrow> cl' j = cl j"
  shows "ip_in_use_from cl' count ip i = ip_in_use_from cl count ip i"
  using assms by (auto simp: ip_in_use_from_iff)

lemma alloc_scan_cong:
  assumes "\<And>j. j < count \<Longrightarrow> cl' j = cl j"
  shows "alloc_scan cl' count network limit i = alloc_scan cl count network limit i"
  using assms
proof (induction cl count network limit i rule: alloc_scan.induct)
  case (1 cl count network limit i)
  have u: "ip_in_use_from cl' count ip 0 = ip_in_use_from cl count ip 0" for ip
    using "1.prems" by (rule ip_in_use_from_cong)
  show ?case
  proof (cases "i < limit \<and> ip_in_use_from cl count (network + of_nat i) 0")
    case True
    then have "alloc_scan cl' count network limit (i + 1) = alloc_scan cl count network limit (i + 1)"
      using "1.IH" [of "network + of_nat i"] "1.prems" by simp
    then show ?thesis
      using True u
      by (simp add: alloc_scan.simps [of cl' count network limit i]
          alloc_scan.simps [of cl count network limit i])
  next
    case False
    then show ?thesis
      using u
      by (auto simp: alloc_scan.simps [of cl' count network limit i]
          alloc_scan.simps [of cl count network limit i] Let_def)
  qed
qed

lemma allocate_static_ip_cong:
  assumes "server_config ctx' = server_config ctx" "client_count ctx' = client_count ctx"
    "\<And>j. j < client_count ctx \<Longrightarrow> clients ctx' j = clients ctx j"
  shows "allocate_static_ip ctx' = allocate_static_ip ctx"
  using assms alloc_scan_cong [of "client_count ctx" "clients ctx'" "clients ctx"]
  by (simp add: allocate_static_ip_def split: option.splits prod.splits)

lemma allocate_static_ip_upd [simp]:
  "allocate_static_ip (ctx\<lparr> clients := (clients ctx)(client_count ctx := c),
                            next_client_id := n \<rparr>) = allocate_static_ip ctx"
  by (rule allocate_static_ip_cong) simp_all

lemma create_client_ok:
  assumes "client_count ctx < MAX_SERVER_CLIENTS"
    "\<not> duplicate_cn_from (clients ctx) (client_count ctx) cn 0"
  shows "ovpn_server_create_client now ctx (Some cn) email_ptr description_ptr =
         (next_client_id ctx,
          ctx\<lparr> clients := (clients ctx)
                 (client_count ctx := created_client now ctx cn email_ptr description_ptr),
               next_client_id := next_client_id ctx + 1,
               client_count := client_count ctx + 1 \<rparr>)"
  using assms
  by (simp add: ovpn_server_create_client_def created_client_def Let_def zero_client_info_def)

lemma create_client_fails:
  "ovpn_server_create_client now ctx None email_ptr description_ptr = (0, ctx)"
  "MAX_SERVER_CLIENTS \<le> client_count ctx \<Longrightarrow>
     ovpn_server_create_client now ctx cn_ptr email_ptr description_ptr = (0, ctx)"
  "i < client_count ctx \<Longrightarrow> common_name (clients ctx i) = cn \<Longrightarrow> \<not> is_revoked (clients ctx i) \<Longrightarrow>
     ovpn_server_create_client now ctx (Some cn) email_ptr description_ptr = (0, ctx)"
proof -
  show "ovpn_server_create_client now ctx None email_ptr description_ptr = (0, ctx)"
    by (simp add: ovpn_server_create_client_def)
  show "MAX_SERVER_CLIENTS \<le> client_count ctx \<Longrightarrow>
     ovpn_server_create_client now ctx cn_ptr email_ptr description_ptr = (0, ctx)"
    by (simp add: ovpn_server_create_client_def split: option.splits)
  assume "i < client_count ctx" "common_name (clients ctx i) = cn" "\<not> is_revoked (clients ctx i)"
  then have "duplicate_cn_from (clients ctx) (client_count ctx) cn 0"
    unfolding duplicate_cn_from_iff by blast
  then show "ovpn_server_create_client now ctx (Some cn) email_ptr description_ptr = (0, ctx)"
    by (simp add: ovpn_server_create_client_def)
qed

lemma parse_default_subnet:
  "strchr_split (CHR ''/'') (take 31 ''10.8.0.0/24'') = Some (''10.8.0.0'', ''24'')"
  "inet_addr_host ''10.8.0.0'' = ipv4 10 8 0 0"
  "atoi ''24'' = 24"
  "host_limit 24 = 255"
proof -
  show "strchr_split (CHR ''/'') (take 31 ''10.8.0.0/24'') = Some (''10.8.0.0'', ''24'')"
    by simp
  show "inet_addr_host ''10.8.0.0'' = ipv4 10 8 0 0"
    by (simp add: inet_addr_host_def decimal_octet_def isdigit_def digit_value_def ipv4_def)
  show "atoi ''24'' = 24"
    by (simp add: atoi_def isspace_def isdigit_def digit_value_def)
  show "host_limit 24 = 255"
    by (simp add: host_limit_def)
qed

lemma allocate_default_subnet:
  assumes "server_subnet (server_config ctx) = ''10.8.0.0/24''"
  shows "allocate_static_ip ctx = alloc_scan (clients ctx) (client_count ctx) (ipv4 10 8 0 0) 255 10"
  unfolding allocate_static_ip_def assms parse_default_subnet(1)
  by (simp only: option.case prod.case Let_def parse_default_subnet(2-4))

lemma created_client_fields [simp]:
  "client_id (created_client now ctx cn e d) = next_client_id ctx"
  "common_name (created_client now ctx cn e d) = take 255 cn"
  "\<not> is_revoked (created_client now ctx cn e d)"
  "client_is_active (created_client now ctx cn e d)"
  "has_static_ip (created_client now ctx cn e d) \<longleftrightarrow> allocate_static_ip ctx \<noteq> 0"
  "static_ip (created_client now ctx cn e d) = allocate_static_ip ctx"
  "\<not> currently_connected (created_client now ctx cn e d)"
  by (simp_all add: created_client_def Let_def zero_client_info_def)

lemma first_allocation:
  assumes "server_subnet (server_config ctx) = ''10.8.0.0/24''" "client_count ctx = 0"
  shows "allocate_static_ip ctx = ipv4 10 8 0 10"
proof -
  have "alloc_scan (clients ctx) 0 (ipv4 10 8 0 0) 255 10 = ipv4 10 8 0 0 + of_nat 10"
    by (rule alloc_scan_first_fit) (simp_all add: ip_in_use_from_iff)
  then show ?thesis
    using assms by (simp add: allocate_default_subnet ipv4_def)
qed

lemma second_allocation:
  assumes "server_subnet (server_config ctx) = ''10.8.0.0/24''" "client_count ctx = 1"
    "has_static_ip (clients ctx 0)" "static_ip (clients ctx 0) = ipv4 10 8 0 10"
  shows "allocate_static_ip ctx = ipv4 10 8 0 11"
proof -
  have "alloc_scan (clients ctx) 1 (ipv4 10 8 0 0) 255 10 = ipv4 10 8 0 0 + of_nat 11"
  proof (rule alloc_scan_first_fit)
    show "\<not> ip_in_use_from (clients ctx) 1 (ipv4 10 8 0 0 + of_nat 11) 0"
      using assms(4) by (simp add: ip_in_use_from_iff ipv4_def)
    show "ip_in_use_from (clients ctx) 1 (ipv4 10 8 0 0 + of_nat j) 0" if "10 \<le> j" "j < 11" for j
    proof -
      have "j = 10" using that by simp
      then show ?thesis using assms(3,4) by (simp add: ip_in_use_from_iff ipv4_def)
    qed
  qed simp_all
  then show ?thesis
    using assms by (simp add: allocate_default_subnet ipv4_def)
qed

lemma third_allocation:
  assumes "server_subnet (server_config ctx) = ''10.8.0.0/24''" "client_count ctx = 2"
    "has_static_ip (clients ctx 0)" "static_ip (clients ctx 0) = ipv4 10 8 0 10"
    "has_static_ip (clients ctx 1)" "static_ip (clients ctx 1) = ipv4 10 8 0 11"
  shows "allocate_static_ip ctx = ipv4 10 8 0 12"
proof -
  have "alloc_scan (clients ctx) 2 (ipv4 10 8 0 0) 255 10 = ipv4 10 8 0 0 + of_nat 12"
  proof (rule alloc_scan_first_fit)
    show "\<not> ip_in_use_from (clients ctx) 2 (ipv4 10 8 0 0 + of_nat 12) 0"
    proof
      assume "ip_in_use_from (clients ctx) 2 (ipv4 10 8 0 0 + of_nat 12) 0"
      then obtain j where j: "j < 2" "static_ip (clients ctx j) = ipv4 10 8 0 0 + of_nat 12"
        unfolding ip_in_use_from_iff by blast
      then have "j = 0 \<or> j = 1" by auto
      then show False using j(2) assms(4,6) by (auto simp: ipv4_def)
    qed
    show "ip_in_use_from (clients ctx) 2 (ipv4 10 8 0 0 + of_nat j) 0" if "10 \<le> j" "j < 12" for j
    proof -
      have "j = 10 \<or> j = 11" using that by auto
      then show ?thesis
      proof
        assume "j = 10"
        then have "0 \<le> (0::nat) \<and> (0::nat) < 2 \<and> has_static_ip (clients ctx 0) \<and>
                   static_ip (clients ctx 0) = ipv4 10 8 0 0 + of_nat j"
          using assms(3,4) by (simp add: ipv4_def)
        then show ?thesis unfolding ip_in_use_from_iff by blast
      next
        assume "j = 11"
        then have "0 \<le> (1::nat) \<and> (1::nat) < 2 \<and> has_static_ip (clients ctx 1) \<and>
                   static_ip (clients ctx 1) = ipv4 10 8 0 0 + of_nat j"
          using assms(5,6) by (simp add: ipv4_def)
        then show ?thesis unfolding ip_in_use_from_iff by blast
      qed
    qed
  qed simp_all
  then show ?thesis
    using assms by (simp add: allocate_default_subnet ipv4_def)
qed

lemma duplicate_cn_from_0 [simp]: "\<not> duplicate_cn_from cl 0 cn 0"
  by (simp add: duplicate_cn_from_iff)

lemma first_three_addresses:
  fixes ctx :: ovpn_server_context_t and t1 t2 t3 :: int and n1 n2 n3 :: string
    and e1 e2 e3 d1 d2 d3 :: "string option"
  assumes sub: "server_subnet (server_config ctx) = ''10.8.0.0/24''" and c0: "client_count ctx = 0"
    and d12: "take 255 n1 \<noteq> n2" and d13: "take 255 n1 \<noteq> n3" and d23: "take 255 n2 \<noteq> n3"
  defines "c1 \<equiv> snd (ovpn_server_create_client t1 ctx (Some n1) e1 d1)"
  defines "c2 \<equiv> snd (ovpn_server_create_client t2 c1 (Some n2) e2 d2)"
  defines "c3 \<equiv> snd (ovpn_server_create_client t3 c2 (Some n3) e3 d3)"
  shows "client_count c3 = 3"
    and "has_static_ip (clients c3 0) \<and> static_ip (clients c3 0) = ipv4 10 8 0 10"
    and "has_static_ip (clients c3 1) \<and> static_ip (clients c3 1) = ipv4 10 8 0 11"
    and "has_static_ip (clients c3 2) \<and> static_ip (clients c3 2) = ipv4 10 8 0 12"
proof -
  have nz: "ipv4 10 8 0 10 \<noteq> 0" "ipv4 10 8 0 11 \<noteq> 0" "ipv4 10 8 0 12 \<noteq> 0"
    by (simp_all add: ipv4_def)
  have m: "client_count ctx < MAX_SERVER_CLIENTS" using c0 by (simp add: MAX_SERVER_CLIENTS_def)
  have nd0: "\<not> duplicate_cn_from (clients ctx) (client_count ctx) n1 0" using c0 by simp
  have e1: "c1 = ctx\<lparr> clients := (clients ctx)(0 := created_client t1 ctx n1 e1 d1),
                      next_client_id := next_client_id ctx + 1, client_count := 1 \<rparr>"
    unfolding c1_def create_client_ok [OF m nd0] using c0 by simp
  have a0: "allocate_static_ip ctx = ipv4 10 8 0 10" using sub c0 by (rule first_allocation)
  have s1: "server_subnet (server_config c1) = ''10.8.0.0/24''" "client_count c1 = 1"
    "has_static_ip (clients c1 0)" "static_ip (clients c1 0) = ipv4 10 8 0 10"
    "common_name (clients c1 0) = take 255 n1"
    using sub a0 nz by (simp_all add: e1)
  have m1: "client_count c1 < MAX_SERVER_CLIENTS" using s1(2) by (simp add: MAX_SERVER_CLIENTS_def)
  have nd1: "\<not> duplicate_cn_from (clients c1) (client_count c1) n2 0"
    using d12 s1(2,5) by (auto simp: duplicate_cn_from_iff)
  have e2: "c2 = c1\<lparr> clients := (clients c1)(1 := created_client t2 c1 n2 e2 d2),
                      next_client_id := next_client_id c1 + 1, client_count := 2 \<rparr>"
    unfolding c2_def create_client_ok [OF m1 nd1] using s1(2) by simp
  have a1: "allocate_static_ip c1 = ipv4 10 8 0 11" using s1(1-4) by (rule second_allocation)
  have s2: "server_subnet (server_config c2) = ''10.8.0.0/24''" "client_count c2 = 2"
    "has_static_ip (clients c2 0)" "static_ip (clients c2 0) = ipv4 10 8 0 10"
    "has_static_ip (clients c2 1)" "static_ip (clients c2 1) = ipv4 10 8 0 11"
    "common_name (clients c2 0) = take 255 n1" "common_name (clients c2 1) = take 255 n2"
    using s1 a1 nz by (simp_all add: e2)
  have m2: "client_count c2 < MAX_SERVER_CLIENTS" using s2(2) by (simp add: MAX_SERVER_CLIENTS_def)
  have nd2: "\<not> duplicate_cn_from (clients c2) (client_count c2) n3 0"
  proof
    assume "duplicate_cn_from (clients c2) (client_count c2) n3 0"
    then obtain j where j: "j < 2" "common_name (clients c2 j) = n3"
      unfolding duplicate_cn_from_iff s2(2) by blast
    then have "j = 0 \<or> j = 1" by auto
    then show False using j(2) s2(7,8) d13 d23 by auto
  qed
  have e3: "c3 = c2\<lparr> clients := (clients c2)(2 := created_client t3 c2 n3 e3 d3),
                      next_client_id := next_client_id c2 + 1, client_count := 3 \<rparr>"
    unfolding c3_def create_client_ok [OF m2 nd2] using s2(2) by simp
  have a2: "allocate_static_ip c2 = ipv4 10 8 0 12" using s2(1-6) by (rule third_allocation)
  show "client_count c3 = 3" by (simp add: e3)
  show "has_static_ip (clients c3 0) \<and> static_ip (clients c3 0) = ipv4 10 8 0 10"
    using s2 by (simp add: e3)
  show "has_static_ip (clients c3 1) \<and> static_ip (clients c3 1) = ipv4 10 8 0 11"
    using s2 by (simp add: e3)
  show "has_static_ip (clients c3 2) \<and> static_ip (clients c3 2) = ipv4 10 8 0 12"
    using a2 nz by (simp add: e3)
qed

lemma exhausted_ctx_facts:
  "allocate_static_ip exhausted_ctx = 0"
  "client_count exhausted_ctx < MAX_SERVER_CLIENTS"
  "\<not> duplicate_cn_from (clients exhausted_ctx) (client_count exhausted_ctx) ''late'' 0"
  "next_client_id exhausted_ctx \<noteq> 0"
proof -
  have sub: "server_subnet (server_config exhausted_ctx) = ''10.8.0.0/24''"
    by (simp add: exhausted_ctx_def ovpn_server_init_def)
  have used: "ip_in_use_from (clients exhausted_ctx) (client_count exhausted_ctx)
                (ipv4 10 8 0 0 + of_nat j) 0" if "10 \<le> j" "j < 255" for j
  proof -
    have "(of_nat j :: 32 word) = 10 + of_nat (j - 10)"
      using that(1) by (metis le_add_diff_inverse of_nat_add of_nat_numeral)
    then have "ipv4 10 8 0 0 + of_nat j = ipv4 10 8 0 10 + of_nat (j - 10)"
      by (simp add: ipv4_def)
    moreover have "j - 10 < 245" using that by simp
    ultimately have "0 \<le> j - 10 \<and> j - 10 < client_count exhausted_ctx \<and>
        has_static_ip (clients exhausted_ctx (j - 10)) \<and>
        static_ip (clients exhausted_ctx (j - 10)) = ipv4 10 8 0 0 + of_nat j"
      by (simp add: exhausted_ctx_def)
    then show ?thesis unfolding ip_in_use_from_iff by blast
  qed
  have "alloc_scan (clients exhausted_ctx) (client_count exhausted_ctx) (ipv4 10 8 0 0) 255 10 = 0"
    by (rule alloc_scan_exhausted) (rule used)
  then show "allocate_static_ip exhausted_ctx = 0"
    by (simp add: allocate_default_subnet [OF sub])
  show "client_count exhausted_ctx < MAX_SERVER_CLIENTS"
    by (simp add: exhausted_ctx_def MAX_SERVER_CLIENTS_def)
  show "\<not> duplicate_cn_from (clients exhausted_ctx) (client_count exhausted_ctx) ''late'' 0"
    by (auto simp: duplicate_cn_from_iff exhausted_ctx_def)
  show "next_client_id exhausted_ctx \<noteq> 0"
    by (simp add: exhausted_ctx_def)
qed

lemma ipv4_offset_inj:
  assumes "p < 4294967296" "q < 4294967296"
  shows "(a :: 32 word) + of_nat p = a + of_nat q \<longleftrightarrow> p = q"
  using assms by (simp add: word_of_nat_eq_iff take_bit_nat_eq_self)

lemma ipv4_base: "ipv4 10 8 0 10 + of_nat j = ipv4 10 8 0 0 + of_nat (10 + j)"
  by (simp add: ipv4_def)

lemma clients_table_allocation:
  assumes "n < 245"
  shows "allocate_static_ip (clients_table n) = ipv4 10 8 0 10 + of_nat n"
proof -
  have sub: "server_subnet (server_config (clients_table n)) = ''10.8.0.0/24''"
    by (simp add: clients_table_def ovpn_server_init_def)
  have "alloc_scan (clients (clients_table n)) (client_count (clients_table n))
          (ipv4 10 8 0 0) 255 10 = ipv4 10 8 0 0 + of_nat (10 + n)"
  proof (rule alloc_scan_first_fit)
    show "10 \<le> 10 + n" by simp
    show "10 + n < 255" using assms by simp
    show "\<not> ip_in_use_from (clients (clients_table n)) (client_count (clients_table n))
             (ipv4 10 8 0 0 + of_nat (10 + n)) 0"
    proof
      assume "ip_in_use_from (clients (clients_table n)) (client_count (clients_table n))
             (ipv4 10 8 0 0 + of_nat (10 + n)) 0"
      then obtain j where j: "j < n"
          "ipv4 10 8 0 10 + of_nat j = ipv4 10 8 0 0 + of_nat (10 + n)"
        unfolding ip_in_use_from_iff by (auto simp: clients_table_def)
      have "10 + j = 10 + n"
        using j(2) assms j(1) unfolding ipv4_base by (subst (asm) ipv4_offset_inj) simp_all
      then show False using j(1) by simp
    qed
    show "ip_in_use_from (clients (clients_table n)) (client_count (clients_table n))
            (ipv4 10 8 0 0 + of_nat j) 0" if "10 \<le> j" "j < 10 + n" for j
    proof -
      have "j = 10 + (j - 10)" using that by simp
      then have "ipv4 10 8 0 10 + of_nat (j - 10) = ipv4 10 8 0 0 + of_nat j"
        using ipv4_base [of "j - 10"] by simp
      moreover have "j - 10 < n" using that by simp
      ultimately have "0 \<le> j - 10 \<and> j - 10 < client_count (clients_table n) \<and>
          has_static_ip (clients (clients_table n) (j - 10)) \<and>
          static_ip (clients (clients_table n) (j - 10)) = ipv4 10 8 0 0 + of_nat j"
        by (simp add: clients_table_def)
      then show ?thesis unfolding ip_in_use_from_iff by blast
    qed
  qed
  then show ?thesis
    by (simp add: allocate_default_subnet [OF sub] ipv4_base)
qed

lemma clients_table_nonzero:
  assumes "n < 245"
  shows "ipv4 10 8 0 10 + of_nat n \<noteq> (0 :: 32 word)"
proof -
  have "ipv4 10 8 0 10 + of_nat n = (0 :: 32 word) + of_nat (168296458 + n)"
    by (simp add: ipv4_def)
  moreover have "(0 :: 32 word) + of_nat (168296458 + n) \<noteq> 0 + of_nat 0"
    using assms by (subst ipv4_offset_inj) simp_all
  ultimately show ?thesis by simp
qed

lemma create_clients_table:
  "n \<le> 245 \<Longrightarrow> create_clients n = clients_table n"
proof (induction n)
  case 0
  show ?case by (simp add: clients_table_def ovpn_server_init_def)
next
  case (Suc n)
  then have n: "n < 245" and ih: "create_clients n = clients_table n" by simp_all
  have cnt: "client_count (clients_table n) < MAX_SERVER_CLIENTS"
    using n by (simp add: clients_table_def MAX_SERVER_CLIENTS_def)
  have dup: "\<not> duplicate_cn_from (clients (clients_table n)) (client_count (clients_table n))
               (replicate (Suc n) (CHR ''x'')) 0"
  proof
    assume "duplicate_cn_from (clients (clients_table n)) (client_count (clients_table n))
               (replicate (Suc n) (CHR ''x'')) 0"
    then obtain j where "j < n" "replicate (Suc j) (CHR ''x'') = replicate (Suc n) (CHR ''x'')"
      unfolding duplicate_cn_from_iff by (auto simp: clients_table_def)
    then have "length (replicate (Suc j) (CHR ''x'')) = length (replicate (Suc n) (CHR ''x''))"
      by simp
    then show False using \<open>j < n\<close> by simp
  qed
  have rec: "created_client 0 (clients_table n) (replicate (Suc n) (CHR ''x'')) None None =
        zero_client_info
          \<lparr> client_id := of_nat n + 1,
            common_name := replicate (Suc n) (CHR ''x''),
            static_ip := ipv4 10 8 0 10 + of_nat n,
            has_static_ip := True,
            client_is_active := True \<rparr>"
  proof -
    have nx: "next_client_id (clients_table n) = of_nat n + 1"
      by (simp add: clients_table_def)
    show ?thesis
      using n clients_table_nonzero [OF n]
      by (simp add: created_client_def clients_table_allocation [OF n] Let_def
          zero_client_info_def strncpy_zeroed_def nx)
  qed
  show ?case
    unfolding create_clients.simps ih create_client_ok [OF cnt dup] snd_conv rec
    by (auto simp: clients_table_def fun_eq_iff)
qed

text \<open>\<open>exhausted_ctx\<close> is the context that 245 successful creations reach from the
  initial context.\<close>

lemma exhausted_ctx_reachable:
  "create_clients 245 = exhausted_ctx"
  unfolding create_clients_table [OF order_refl]
  by (simp add: clients_table_def exhausted_ctx_def)

text \<open>
  Claim C8 as stated fails in its last part. In \<open>exhausted_ctx\<close> the subnet is
  \<^verbatim>\<open>10.8.0.0/24\<close> and the 245 addresses \<^verbatim>\<open>10.8.0.10\<close> to \<^verbatim>\<open>10.8.0.254\<close> of the scan range are
  taken; the allocator returns 0, and creating one more client does not fail: it returns
  the identifier 246 and stores the record without a static address.
\<close>

theorem allocation_exhausted_counterexample:
  "allocate_static_ip exhausted_ctx = 0
   \<and> fst (ovpn_server_create_client 0 exhausted_ctx (Some ''late'') None None) = 246
   \<and> fst (ovpn_server_create_client 0 exhausted_ctx (Some ''late'') None None) \<noteq> 0
   \<and> client_count (snd (ovpn_server_create_client 0 exhausted_ctx (Some ''late'') None None)) = 246
   \<and> \<not> has_static_ip
        (clients (snd (ovpn_server_create_client 0 exhausted_ctx (Some ''late'') None None)) 245)"
  unfolding create_client_ok [OF exhausted_ctx_facts(2,3)]
  using exhausted_ctx_facts(1) by (simp add: exhausted_ctx_def)

text \<open>
  Claim C8, amended: with server subnet \<^verbatim>\<open>10.8.0.0/24\<close> and an empty table, the first three
  clients created get the addresses \<^verbatim>\<open>10.8.0.10\<close>, \<^verbatim>\<open>10.8.0.11\<close> and \<^verbatim>\<open>10.8.0.12\<close> in that
  order; and when the allocator finds no free address (it returns 0), creating a client
  still succeeds: it returns the next client identifier and stores an active record that
  has no static address.
\<close>

theorem static_address_allocation:
  "(server_subnet (server_config ctx) = ''10.8.0.0/24'' \<and> client_count ctx = 0 \<and>
    take 255 na \<noteq> nb \<and> take 255 na \<noteq> nc \<and> take 255 nb \<noteq> nc \<longrightarrow>
      (let ca = snd (ovpn_server_create_client ta ctx (Some na) ea da);
           cb = snd (ovpn_server_create_client tb ca (Some nb) eb db);
           cc = snd (ovpn_server_create_client tc cb (Some nc) ec dc)
       in client_count cc = 3 \<and>
          has_static_ip (clients cc 0) \<and> static_ip (clients cc 0) = ipv4 10 8 0 10 \<and>
          has_static_ip (clients cc 1) \<and> static_ip (clients cc 1) = ipv4 10 8 0 11 \<and>
          has_static_ip (clients cc 2) \<and> static_ip (clients cc 2) = ipv4 10 8 0 12))
   \<and> (allocate_static_ip ctx' = 0 \<and> client_count ctx' < MAX_SERVER_CLIENTS \<and>
       \<not> duplicate_cn_from (clients ctx') (client_count ctx') cn 0 \<and> next_client_id ctx' \<noteq> 0 \<longrightarrow>
         fst (ovpn_server_create_client now ctx' (Some cn) e d) = next_client_id ctx' \<and>
         fst (ovpn_server_create_client now ctx' (Some cn) e d) \<noteq> 0 \<and>
         client_count (snd (ovpn_server_create_client now ctx' (Some cn) e d)) =
           client_count ctx' + 1 \<and>
         client_is_active
           (clients (snd (ovpn_server_create_client now ctx' (Some cn) e d)) (client_count ctx')) \<and>
         \<not> has_static_ip
           (clients (snd (ovpn_server_create_client now ctx' (Some cn) e d)) (client_count ctx')))"
proof (intro conjI impI)
  assume a: "server_subnet (server_config ctx) = ''10.8.0.0/24'' \<and> client_count ctx = 0 \<and>
    take 255 na \<noteq> nb \<and> take 255 na \<noteq> nc \<and> take 255 nb \<noteq> nc"
  then have sub: "server_subnet (server_config ctx) = ''10.8.0.0/24''" and c0: "client_count ctx = 0"
    and d12: "take 255 na \<noteq> nb" and d13: "take 255 na \<noteq> nc" and d23: "take 255 nb \<noteq> nc"
    by simp_all
  note f = first_three_addresses [OF sub c0 d12 d13 d23, of tc tb ta ea da eb db ec dc]
  show "let ca = snd (ovpn_server_create_client ta ctx (Some na) ea da);
           cb = snd (ovpn_server_create_client tb ca (Some nb) eb db);
           cc = snd (ovpn_server_create_client tc cb (Some nc) ec dc)
       in client_count cc = 3 \<and>
          has_static_ip (clients cc 0) \<and> static_ip (clients cc 0) = ipv4 10 8 0 10 \<and>
          has_static_ip (clients cc 1) \<and> static_ip (clients cc 1) = ipv4 10 8 0 11 \<and>
          has_static_ip (clients cc 2) \<and> static_ip (clients cc 2) = ipv4 10 8 0 12"
    unfolding Let_def using f by blast
next
  assume b: "allocate_static_ip ctx' = 0 \<and> client_count ctx' < MAX_SERVER_CLIENTS \<and>
       \<not> duplicate_cn_from (clients ctx') (client_count ctx') cn 0 \<and> next_client_id ctx' \<noteq> 0"
  then have m: "client_count ctx' < MAX_SERVER_CLIENTS"
    and nd: "\<not> duplicate_cn_from (clients ctx') (client_count ctx') cn 0" by simp_all
  note ok = create_client_ok [OF m nd, of now e d]
  show "fst (ovpn_server_create_client now ctx' (Some cn) e d) = next_client_id ctx'"
    by (simp add: ok)
  show "fst (ovpn_server_create_client now ctx' (Some cn) e d) \<noteq> 0"
    using b by (simp add: ok)
  show "client_count (snd (ovpn_server_create_client now ctx' (Some cn) e d)) = client_count ctx' + 1"
    by (simp add: ok)
  show "client_is_active
           (clients (snd (ovpn_server_create_client now ctx' (Some cn) e d)) (client_count ctx'))"
    by (simp add: ok)
  show "\<not> has_static_ip
           (clients (snd (ovpn_server_create_client now ctx' (Some cn) e d)) (client_count ctx'))"
    using b by (simp add: ok)
qed

lemma disconnect_client_frame:
  "client_count (ovpn_server_disconnect_client ctx cid) = client_count ctx"
  "next_client_id (ovpn_server_disconnect_client ctx cid) = next_client_id ctx"
  "server_config (ovpn_server_disconnect_client ctx cid) = server_config ctx"
  "common_name (clients (ovpn_server_disconnect_client ctx cid) j) = common_name (clients ctx j)"
  "is_revoked (clients (ovpn_server_disconnect_client ctx cid) j) = is_revoked (clients ctx j)"
  "client_id (clients (ovpn_server_disconnect_client ctx cid) j) = client_id (clients ctx j)"
  by (auto simp: ovpn_server_disconnect_client_def split: option.splits)

lemma revoke_client_found:
  assumes "cid \<noteq> 0" "find_client_from (clients ctx) (client_count ctx) cid 0 = Some i"
  shows "fst (ovpn_server_revoke_client now ctx cid reason) = 0"
    and "client_count (snd (ovpn_server_revoke_client now ctx cid reason)) = client_count ctx"
    and "next_client_id (snd (ovpn_server_revoke_client now ctx cid reason)) = next_client_id ctx"
    and "common_name (clients (snd (ovpn_server_revoke_client now ctx cid reason)) j) =
           common_name (clients ctx j)"
    and "is_revoked (clients (snd (ovpn_server_revoke_client now ctx cid reason)) j) \<longleftrightarrow>
           j = i \<or> is_revoked (clients ctx j)"
  using assms
  by (auto simp: ovpn_server_revoke_client_def Let_def disconnect_client_frame)

lemma revoke_client_not_found:
  "cid = 0 \<or> find_client_from (clients ctx) (client_count ctx) cid 0 = None \<Longrightarrow>
     ovpn_server_revoke_client now ctx cid reason = (- 1, ctx)"
  by (auto simp: ovpn_server_revoke_client_def)

text \<open>
  Claim C6: a failed creation changes nothing. When \<^verbatim>\<open>ovpn_client_create_session\<close> is given
  no configuration, a configuration without the mandatory profile text, or a registry with
  no free slot, it returns 0 and the global state (session table and identifier counter)
  is the one before the call. When \<^verbatim>\<open>ovpn_server_create_client\<close> is given no common name,
  a full table, or the common name of a record that is not revoked, it returns 0 and the
  context (client table, \<^verbatim>\<open>client_count\<close>, \<^verbatim>\<open>next_client_id\<close>) is the one before the call.
\<close>

theorem failed_creation_changes_nothing:
  "(cfg_ptr = None \<or> (\<exists>cfg. cfg_ptr = Some cfg \<and> ovpn_config cfg = None) \<or>
    free_slots (g_sessions g) = [] \<longrightarrow>
      ovpn_client_create_session now g cfg_ptr cb ud = (0, g))
   \<and> (cn_ptr = None \<or> MAX_SERVER_CLIENTS \<le> client_count ctx \<or>
       (\<exists>i. i < client_count ctx \<and> cn_ptr = Some (common_name (clients ctx i)) \<and>
            \<not> is_revoked (clients ctx i)) \<longrightarrow>
      ovpn_server_create_client now' ctx cn_ptr email_ptr description_ptr = (0, ctx))"
proof (intro conjI impI)
  assume "cfg_ptr = None \<or> (\<exists>cfg. cfg_ptr = Some cfg \<and> ovpn_config cfg = None) \<or>
    free_slots (g_sessions g) = []"
  then show "ovpn_client_create_session now g cfg_ptr cb ud = (0, g)"
    using create_session_fails(1) [of now g cb ud] create_session_fails(2) [of _ now g cb ud]
      create_session_fails(3) [of g now cfg_ptr cb ud]
    by (auto simp: free_slots_Nil)
next
  assume "cn_ptr = None \<or> MAX_SERVER_CLIENTS \<le> client_count ctx \<or>
       (\<exists>i. i < client_count ctx \<and> cn_ptr = Some (common_name (clients ctx i)) \<and>
            \<not> is_revoked (clients ctx i))"
  then show "ovpn_server_create_client now' ctx cn_ptr email_ptr description_ptr = (0, ctx)"
    using create_client_fails(1) [of now' ctx email_ptr description_ptr]
      create_client_fails(2) [of ctx now' cn_ptr email_ptr description_ptr]
      create_client_fails(3) [of _ ctx _ now' email_ptr description_ptr]
    by auto
qed

text \<open>
  Names that the field holds in full: creating a client whose name is the stored name of
  a record that is not revoked fails with 0 and changes nothing (the code has one failure
  value; it does not name the failure). After \<^verbatim>\<open>ovpn_server_revoke_client\<close> on the one record that held the name, and
  with room in the table, creating a client of that name succeeds: it returns the next
  identifier and appends the record.
\<close>

lemma duplicate_common_name:
  "((\<exists>i. i < client_count ctx \<and> common_name (clients ctx i) = cn \<and> \<not> is_revoked (clients ctx i)) \<longrightarrow>
      ovpn_server_create_client now ctx (Some cn) e d = (0, ctx))
   \<and> (cid \<noteq> 0 \<and> find_client_from (clients ctx) (client_count ctx) cid 0 = Some i \<and>
       (\<forall>j. j < client_count ctx \<and> j \<noteq> i \<and> common_name (clients ctx j) = cn \<longrightarrow>
            is_revoked (clients ctx j)) \<and>
       client_count ctx < MAX_SERVER_CLIENTS \<and> next_client_id ctx \<noteq> 0 \<longrightarrow>
         fst (ovpn_server_revoke_client now_r ctx cid reason) = 0 \<and>
         fst (ovpn_server_create_client now_c (snd (ovpn_server_revoke_client now_r ctx cid reason))
                (Some cn) e d) = next_client_id ctx \<and>
         fst (ovpn_server_create_client now_c (snd (ovpn_server_revoke_client now_r ctx cid reason))
                (Some cn) e d) \<noteq> 0 \<and>
         client_count (snd (ovpn_server_create_client now_c
                (snd (ovpn_server_revoke_client now_r ctx cid reason)) (Some cn) e d)) =
           client_count ctx + 1 \<and>
         common_name (clients (snd (ovpn_server_create_client now_c
                (snd (ovpn_server_revoke_client now_r ctx cid reason)) (Some cn) e d))
              (client_count ctx)) = take 255 cn \<and>
         \<not> is_revoked (clients (snd (ovpn_server_create_client now_c
                (snd (ovpn_server_revoke_client now_r ctx cid reason)) (Some cn) e d))
              (client_count ctx)))"
proof (intro conjI impI)
  assume "\<exists>i. i < client_count ctx \<and> common_name (clients ctx i) = cn \<and> \<not> is_revoked (clients ctx i)"
  then show "ovpn_server_create_client now ctx (Some cn) e d = (0, ctx)"
    using create_client_fails(3) by blast
next
  assume a: "cid \<noteq> 0 \<and> find_client_from (clients ctx) (client_count ctx) cid 0 = Some i \<and>
       (\<forall>j. j < client_count ctx \<and> j \<noteq> i \<and> common_name (clients ctx j) = cn \<longrightarrow>
            is_revoked (clients ctx j)) \<and>
       client_count ctx < MAX_SERVER_CLIENTS \<and> next_client_id ctx \<noteq> 0"
  let ?r = "snd (ovpn_server_revoke_client now_r ctx cid reason)"
  from a have nz: "cid \<noteq> 0" and f: "find_client_from (clients ctx) (client_count ctx) cid 0 = Some i"
    by simp_all
  note rv = revoke_client_found [OF nz f, of now_r reason]
  have m: "client_count ?r < MAX_SERVER_CLIENTS" using a by (simp add: rv(2))
  have nd: "\<not> duplicate_cn_from (clients ?r) (client_count ?r) cn 0"
    unfolding duplicate_cn_from_iff rv using a by auto
  note ok = create_client_ok [OF m nd, of now_c e d]
  show "fst (ovpn_server_revoke_client now_r ctx cid reason) = 0" by (rule rv(1))
  show "fst (ovpn_server_create_client now_c ?r (Some cn) e d) = next_client_id ctx"
    by (simp add: ok rv(3))
  show "fst (ovpn_server_create_client now_c ?r (Some cn) e d) \<noteq> 0"
    using a by (simp add: ok rv(3))
  show "client_count (snd (ovpn_server_create_client now_c ?r (Some cn) e d)) = client_count ctx + 1"
    by (simp add: ok rv(2))
  show "common_name (clients (snd (ovpn_server_create_client now_c ?r (Some cn) e d))
              (client_count ctx)) = take 255 cn"
    by (simp add: ok rv(2))
  show "\<not> is_revoked (clients (snd (ovpn_server_create_client now_c ?r (Some cn) e d))
              (client_count ctx))"
    by (simp add: ok rv(2))
qed

lemma alice_ctx_facts:
  "client_count alice_ctx = 1"
  "next_client_id alice_ctx = 2"
  "common_name (clients alice_ctx 0) = ''alice''"
  "\<not> is_revoked (clients alice_ctx 0)"
  "find_client_from (clients alice_ctx) (client_count alice_ctx) 1 0 = Some 0"
proof -
  have m: "client_count ovpn_server_init < MAX_SERVER_CLIENTS"
    by (simp add: ovpn_server_init_def MAX_SERVER_CLIENTS_def)
  have nd: "\<not> duplicate_cn_from (clients ovpn_server_init) (client_count ovpn_server_init) ''alice'' 0"
    by (simp add: ovpn_server_init_def)
  note ok = create_client_ok [OF m nd, of 0 "Some ''alice@example.org''" None]
  have c: "client_count ovpn_server_init = 0" "next_client_id ovpn_server_init = 1"
    by (simp_all add: ovpn_server_init_def)
  show 1: "client_count alice_ctx = 1" by (simp add: alice_ctx_def ok c)
  show "next_client_id alice_ctx = 2" by (simp add: alice_ctx_def ok c)
  show "common_name (clients alice_ctx 0) = ''alice''" by (simp add: alice_ctx_def ok c)
  show "\<not> is_revoked (clients alice_ctx 0)" by (simp add: alice_ctx_def ok c)
  have "client_id (clients alice_ctx 0) = 1" by (simp add: alice_ctx_def ok c)
  then show "find_client_from (clients alice_ctx) (client_count alice_ctx) 1 0 = Some 0"
    unfolding 1 by (intro find_client_from_first) simp_all
qed

text \<open>
  The premises hold for a full session registry and for a client table that already holds
  the name.
\<close>

theorem failed_creation_changes_nothing_witness:
  "free_slots (g_sessions full_registry) = []
   \<and> ovpn_client_create_session 0 full_registry (Some valid_config) 0 0 = (0, full_registry)
   \<and> (0::nat) < client_count alice_ctx
   \<and> common_name (clients alice_ctx 0) = ''alice''
   \<and> \<not> is_revoked (clients alice_ctx 0)
   \<and> ovpn_server_create_client 1 alice_ctx (Some ''alice'') None None = (0, alice_ctx)"
proof -
  have dup: "\<exists>i. i < client_count alice_ctx \<and> Some ''alice'' = Some (common_name (clients alice_ctx i)) \<and>
               \<not> is_revoked (clients alice_ctx i)"
    using alice_ctx_facts(1,3,4) by (intro exI [of _ 0]) simp
  show ?thesis
    using failed_creation_changes_nothing
      [where cfg_ptr = "Some valid_config" and g = full_registry and cn_ptr = "Some ''alice''"
         and ctx = alice_ctx and now = 0 and cb = 0 and ud = 0 and now' = 1
         and email_ptr = None and description_ptr = None]
      full_registry_facts(1) dup alice_ctx_facts(1,3,4)
    by simp
qed

text \<open>
  The scenario of the spec: ``alice'' is created, a second ``alice'' is refused, the first
  is revoked, and ``alice'' is created again with identifier 2.
\<close>

lemma duplicate_common_name_witness:
  "(1::32 word) \<noteq> 0
   \<and> find_client_from (clients alice_ctx) (client_count alice_ctx) 1 0 = Some 0
   \<and> client_count alice_ctx < MAX_SERVER_CLIENTS
   \<and> next_client_id alice_ctx \<noteq> 0
   \<and> common_name (clients alice_ctx 0) = ''alice''
   \<and> \<not> is_revoked (clients alice_ctx 0)
   \<and> ovpn_server_create_client 1 alice_ctx (Some ''alice'') None None = (0, alice_ctx)
   \<and> fst (ovpn_server_revoke_client 2 alice_ctx 1 (Some ''left'')) = 0
   \<and> fst (ovpn_server_create_client 3 (snd (ovpn_server_revoke_client 2 alice_ctx 1 (Some ''left'')))
          (Some ''alice'') None None) = 2"
proof -
  have dup: "\<exists>i. i < client_count alice_ctx \<and> common_name (clients alice_ctx i) = ''alice'' \<and>
               \<not> is_revoked (clients alice_ctx i)"
    using alice_ctx_facts(1,3,4) by (intro exI [of _ 0]) simp
  have only: "\<forall>j. j < client_count alice_ctx \<and> j \<noteq> 0 \<and> common_name (clients alice_ctx j) = ''alice'' \<longrightarrow>
                is_revoked (clients alice_ctx j)"
    by (simp add: alice_ctx_facts(1))
  have m: "client_count alice_ctx < MAX_SERVER_CLIENTS"
    by (simp add: alice_ctx_facts(1) MAX_SERVER_CLIENTS_def)
  have n: "next_client_id alice_ctx \<noteq> 0" by (simp add: alice_ctx_facts(2))
  show ?thesis
    using duplicate_common_name
      [where ctx = alice_ctx and cn = "''alice''" and cid = 1 and i = 0 and now = 1
         and e = None and d = None and now_r = 2 and now_c = 3 and reason = "Some ''left''"]
      dup only m n alice_ctx_facts
    by simp
qed

lemma long_name_first:
  "ovpn_server_create_client 0 ovpn_server_init (Some long_name) None None =
     (1, ovpn_server_init
           \<lparr> clients := (clients ovpn_server_init)
                (0 := created_client 0 ovpn_server_init long_name None None),
             next_client_id := 2, client_count := 1 \<rparr>)"
proof -
  have c: "client_count ovpn_server_init < MAX_SERVER_CLIENTS"
    by (simp add: ovpn_server_init_def MAX_SERVER_CLIENTS_def)
  have d: "\<not> duplicate_cn_from (clients ovpn_server_init) (client_count ovpn_server_init)
             long_name 0"
    by (simp add: duplicate_cn_from_iff ovpn_server_init_def)
  show ?thesis
    unfolding create_client_ok [OF c d] by (simp add: ovpn_server_init_def)
qed

lemma long_name_ctx_facts:
  "client_count long_name_ctx = 1"
  "next_client_id long_name_ctx = 2"
  "common_name (clients long_name_ctx 0) = replicate 255 (CHR ''a'')"
  "\<not> is_revoked (clients long_name_ctx 0)"
  "client_is_active (clients long_name_ctx 0)"
proof -
  have e: "long_name_ctx =
      ovpn_server_init
           \<lparr> clients := (clients ovpn_server_init)
                (0 := created_client 0 ovpn_server_init long_name None None),
             next_client_id := 2, client_count := 1 \<rparr>"
    unfolding long_name_ctx_def long_name_first by simp
  have t: "take 255 long_name = replicate 255 (CHR ''a'')"
    by (simp add: long_name_def)
  show "client_count long_name_ctx = 1" "next_client_id long_name_ctx = 2"
    "common_name (clients long_name_ctx 0) = replicate 255 (CHR ''a'')"
    "\<not> is_revoked (clients long_name_ctx 0)"
    "client_is_active (clients long_name_ctx 0)"
    unfolding e by (simp_all add: t)
qed

lemma long_name_second:
  "ovpn_server_create_client 1 long_name_ctx (Some long_name) None None =
     (2, long_name_ctx
           \<lparr> clients := (clients long_name_ctx)
                (1 := created_client 1 long_name_ctx long_name None None),
             next_client_id := 3, client_count := 2 \<rparr>)"
proof -
  have c: "client_count long_name_ctx < MAX_SERVER_CLIENTS"
    by (simp add: long_name_ctx_facts MAX_SERVER_CLIENTS_def)
  have "length (common_name (clients long_name_ctx 0)) \<noteq> length long_name"
    by (simp add: long_name_ctx_facts long_name_def)
  then have "common_name (clients long_name_ctx 0) \<noteq> long_name" by auto
  then have d: "\<not> duplicate_cn_from (clients long_name_ctx) (client_count long_name_ctx)
             long_name 0"
    by (auto simp: duplicate_cn_from_iff long_name_ctx_facts(1))
  show ?thesis
    unfolding create_client_ok [OF c d] by (simp add: long_name_ctx_facts)
qed

text \<open>
  Claim C7 (creating a client whose common name equals that of a record that is not
  revoked fails). The duplicate loop (line 371) compares the stored name, which
  \<^verbatim>\<open>strncpy\<close> cut to 255 characters (line 383), with the name as passed. For a name of 256
  characters the two never agree: the second creation with the same name succeeds with
  identifier 2, and the table holds two records that are not revoked and have the same
  common name.
\<close>

theorem long_common_name_created_twice:
  "fst (ovpn_server_create_client 0 ovpn_server_init (Some long_name) None None) = 1
   \<and> snd (ovpn_server_create_client 0 ovpn_server_init (Some long_name) None None) = long_name_ctx
   \<and> common_name (clients long_name_ctx 0) = take 255 long_name
   \<and> \<not> is_revoked (clients long_name_ctx 0)
   \<and> fst (ovpn_server_create_client 1 long_name_ctx (Some long_name) None None) = 2
   \<and> fst (ovpn_server_create_client 1 long_name_ctx (Some long_name) None None) \<noteq> 0
   \<and> client_count (snd (ovpn_server_create_client 1 long_name_ctx (Some long_name) None None)) = 2
   \<and> common_name
        (clients (snd (ovpn_server_create_client 1 long_name_ctx (Some long_name) None None)) 0) =
      common_name
        (clients (snd (ovpn_server_create_client 1 long_name_ctx (Some long_name) None None)) 1)
   \<and> \<not> is_revoked
        (clients (snd (ovpn_server_create_client 1 long_name_ctx (Some long_name) None None)) 0)
   \<and> \<not> is_revoked
        (clients (snd (ovpn_server_create_client 1 long_name_ctx (Some long_name) None None)) 1)"
proof -
  have t: "take 255 long_name = replicate 255 (CHR ''a'')"
    by (simp add: long_name_def)
  have a: "snd (ovpn_server_create_client 0 ovpn_server_init (Some long_name) None None) =
           long_name_ctx"
    by (simp add: long_name_ctx_def)
  have b: "fst (ovpn_server_create_client 0 ovpn_server_init (Some long_name) None None) = 1"
    by (simp add: long_name_first)
  show ?thesis
    unfolding long_name_second a b
    by (simp add: long_name_ctx_facts t)
qed

text \<open>
  The three clients of \<^verbatim>\<open>example_server_usage.c\<close> on the initial context, and one more
  client on the exhausted one.
\<close>

theorem static_address_allocation_witness:
  "server_subnet (server_config ovpn_server_init) = ''10.8.0.0/24''
   \<and> client_count ovpn_server_init = 0
   \<and> take 255 ''john.doe'' \<noteq> ''jane.smith''
   \<and> take 255 ''john.doe'' \<noteq> ''bob.wilson''
   \<and> take 255 ''jane.smith'' \<noteq> ''bob.wilson''
   \<and> static_ip (clients
        (snd (ovpn_server_create_client 3
           (snd (ovpn_server_create_client 2
              (snd (ovpn_server_create_client 1 ovpn_server_init (Some ''john.doe'') None None))
              (Some ''jane.smith'') None None))
           (Some ''bob.wilson'') None None)) 2) = ipv4 10 8 0 12
   \<and> allocate_static_ip exhausted_ctx = 0
   \<and> client_count exhausted_ctx < MAX_SERVER_CLIENTS
   \<and> \<not> duplicate_cn_from (clients exhausted_ctx) (client_count exhausted_ctx) ''late'' 0
   \<and> next_client_id exhausted_ctx \<noteq> 0
   \<and> fst (ovpn_server_create_client 9 exhausted_ctx (Some ''late'') None None) \<noteq> 0"
proof -
  have a: "server_subnet (server_config ovpn_server_init) = ''10.8.0.0/24''"
    "client_count ovpn_server_init = 0"
    by (simp_all add: ovpn_server_init_def)
  have b: "take 255 ''john.doe'' \<noteq> ''jane.smith''" "take 255 ''john.doe'' \<noteq> ''bob.wilson''"
    "take 255 ''jane.smith'' \<noteq> ''bob.wilson''"
    by simp_all
  show ?thesis
    using static_address_allocation
      [where ctx = ovpn_server_init and na = "''john.doe''" and nb = "''jane.smith''"
         and nc = "''bob.wilson''" and ctx' = exhausted_ctx and cn = "''late''"
         and ta = 1 and tb = 2 and tc = 3 and ea = None and eb = None and ec = None
         and da = None and db = None and dc = None and now = 9 and e = None and d = None]
      a b exhausted_ctx_facts
    by (simp add: Let_def)
qed

section \<open>Lemmas: the configuration parser\<close>

lemma same_name_literals [simp]:
  "same_name ''ovpn_config'' ''ovpn_config''"
  by (simp add: same_name_def)

text \<open>
Claim C9 (a document that omits the reconnect interval yields the default of 30 seconds).
The code assigns the defaults 30, 10 and 1500 only inside
\<^verbatim>\<open>if (cJSON_IsObject(connection))\<close>. For the document
\<^verbatim>\<open>{"ovpn_config": "client"}\<close>, which omits the reconnect interval together with the
whole optional \<^verbatim>\<open>connection\<close> group, the parse succeeds and the interval is the 0 that
\<^verbatim>\<open>memset\<close> left, not 30; with an empty \<^verbatim>\<open>connection\<close> group present the
interval is 30.
\<close>

theorem missing_connection_group_gives_zero:
  "fst (ovpn_client_parse_config_json (JSON_DOCUMENT minimal_document) zero_config) =
     OVPN_ERROR_SUCCESS
   \<and> reconnect_interval
       (snd (ovpn_client_parse_config_json (JSON_DOCUMENT minimal_document) zero_config)) = 0
   \<and> reconnect_interval
       (snd (ovpn_client_parse_config_json (JSON_DOCUMENT minimal_document) zero_config)) \<noteq> 30
   \<and> reconnect_interval
       (snd (ovpn_client_parse_config_json (JSON_DOCUMENT empty_connection_document) zero_config)) = 30"
  by (simp add: ovpn_client_parse_config_json_def minimal_document_def empty_connection_document_def
      cJSON_GetObjectItem_def cJSON_IsObject_def cJSON_IsTrue_def string_or_def number_or_def
      same_name_def tolower_def zero_config_def Let_def)

lemma find_item_unknown:
  "\<not> same_name name k \<Longrightarrow> find_item (xs @ (k, v) # ys) name = find_item (xs @ ys) name"
  by (induction xs) auto

lemma GetObjectItem_unknown:
  assumes "\<not> same_name name k"
  shows "cJSON_GetObjectItem (Some (cJSON_Object (xs @ (k, v) # ys))) name =
         cJSON_GetObjectItem (Some (cJSON_Object (xs @ ys))) name"
  using assms by (simp add: cJSON_GetObjectItem_def find_item_unknown)

lemma parse_config_unknown_field:
  assumes "list_all (\<lambda>name. \<not> same_name name k) top_level_names"
  shows "ovpn_client_parse_config_json (JSON_DOCUMENT (cJSON_Object (xs @ (k, v) # ys))) c =
         ovpn_client_parse_config_json (JSON_DOCUMENT (cJSON_Object (xs @ ys))) c"
proof -
  have n: "\<not> same_name ''profile_name'' k" "\<not> same_name ''ovpn_config'' k"
    "\<not> same_name ''auth'' k" "\<not> same_name ''certificates'' k"
    "\<not> same_name ''connection'' k" "\<not> same_name ''proxy'' k" "\<not> same_name ''settings'' k"
    using assms by (simp_all add: top_level_names_def)
  note u = n [THEN GetObjectItem_unknown, of xs v ys]
  show ?thesis
    unfolding ovpn_client_parse_config_json_def json_text.case Let_def
    by (simp only: u)
qed

lemma parse_config_missing_profile:
  assumes "\<And>t. cJSON_GetObjectItem (Some doc) ''ovpn_config'' \<noteq> Some (cJSON_String t)"
  shows "fst (ovpn_client_parse_config_json (JSON_DOCUMENT doc) c) = OVPN_ERROR_CONFIG_INVALID"
  using assms
  by (auto simp: ovpn_client_parse_config_json_def Let_def split: option.splits cJSON.splits)

lemma parse_config_reconnect_interval:
  assumes "cJSON_GetObjectItem (Some doc) ''ovpn_config'' = Some (cJSON_String t)"
    and "cJSON_GetObjectItem (Some doc) ''connection'' = Some (cJSON_Object conn)"
  shows "fst (ovpn_client_parse_config_json (JSON_DOCUMENT doc) c) = OVPN_ERROR_SUCCESS"
    and "reconnect_interval (snd (ovpn_client_parse_config_json (JSON_DOCUMENT doc) c)) =
           (case find_item conn ''reconnect_interval'' of
              Some (cJSON_Number n) \<Rightarrow> word_of_int n
            | _ \<Rightarrow> 30)"
  using assms
  by (simp_all add: ovpn_client_parse_config_json_def Let_def cJSON_IsObject_def number_or_def
      cJSON_GetObjectItem_def split: option.splits cJSON.splits)

text \<open>
What the parser does keep of the configuration contract. When the document has the profile
text and a \<^verbatim>\<open>connection\<close> object, the parse succeeds, an omitted
\<^verbatim>\<open>reconnect_interval\<close> gives 30 and the value 15 gives 15; a document without
\<^verbatim>\<open>ovpn_config\<close> fails with \<^verbatim>\<open>OVPN_ERROR_CONFIG_INVALID\<close>; and a top-level
member whose name is none of the seven names the parser looks up changes nothing.
\<close>

theorem parse_config_holds_with_connection_group:
  "(cJSON_GetObjectItem (Some doc) ''ovpn_config'' = Some (cJSON_String t) \<and>
    cJSON_GetObjectItem (Some doc) ''connection'' = Some (cJSON_Object conn) \<longrightarrow>
      fst (ovpn_client_parse_config_json (JSON_DOCUMENT doc) c) = OVPN_ERROR_SUCCESS \<and>
      (find_item conn ''reconnect_interval'' = None \<longrightarrow>
         reconnect_interval (snd (ovpn_client_parse_config_json (JSON_DOCUMENT doc) c)) = 30) \<and>
      (find_item conn ''reconnect_interval'' = Some (cJSON_Number 15) \<longrightarrow>
         reconnect_interval (snd (ovpn_client_parse_config_json (JSON_DOCUMENT doc) c)) = 15))
   \<and> (cJSON_GetObjectItem (Some doc') ''ovpn_config'' = None \<longrightarrow>
        fst (ovpn_client_parse_config_json (JSON_DOCUMENT doc') c) = OVPN_ERROR_CONFIG_INVALID)
   \<and> (list_all (\<lambda>name. \<not> same_name name k) top_level_names \<longrightarrow>
        ovpn_client_parse_config_json (JSON_DOCUMENT (cJSON_Object (xs @ (k, v) # ys))) c =
        ovpn_client_parse_config_json (JSON_DOCUMENT (cJSON_Object (xs @ ys))) c)"
proof (intro conjI impI)
  assume a: "cJSON_GetObjectItem (Some doc) ''ovpn_config'' = Some (cJSON_String t) \<and>
    cJSON_GetObjectItem (Some doc) ''connection'' = Some (cJSON_Object conn)"
  then have a1: "cJSON_GetObjectItem (Some doc) ''ovpn_config'' = Some (cJSON_String t)"
    and a2: "cJSON_GetObjectItem (Some doc) ''connection'' = Some (cJSON_Object conn)" by simp_all
  note r = parse_config_reconnect_interval [OF a1 a2, of c]
  show "fst (ovpn_client_parse_config_json (JSON_DOCUMENT doc) c) = OVPN_ERROR_SUCCESS"
    by (rule r(1))
  show "reconnect_interval (snd (ovpn_client_parse_config_json (JSON_DOCUMENT doc) c)) = 30"
    if "find_item conn ''reconnect_interval'' = None"
    using that by (simp add: r(2))
  show "reconnect_interval (snd (ovpn_client_parse_config_json (JSON_DOCUMENT doc) c)) = 15"
    if "find_item conn ''reconnect_interval'' = Some (cJSON_Number 15)"
    using that by (simp add: r(2))
next
  assume "cJSON_GetObjectItem (Some doc') ''ovpn_config'' = None"
  then show "fst (ovpn_client_parse_config_json (JSON_DOCUMENT doc') c) = OVPN_ERROR_CONFIG_INVALID"
    by (intro parse_config_missing_profile) simp
next
  assume "list_all (\<lambda>name. \<not> same_name name k) top_level_names"
  then show "ovpn_client_parse_config_json (JSON_DOCUMENT (cJSON_Object (xs @ (k, v) # ys))) c =
        ovpn_client_parse_config_json (JSON_DOCUMENT (cJSON_Object (xs @ ys))) c"
    by (rule parse_config_unknown_field)
qed

end
